theory Spec2Isabelle
  imports Complex_Main "HOL-Library.Signed_Division"
begin

section \<open>Conventions of the embedding\<close>

text \<open>
  The synthesiser computes on C++ \<^verbatim>\<open>float\<close> samples. The embedding reads every
  \<^verbatim>\<open>float\<close> as a \<^typ>\<open>real\<close>: the theorems are about which formula each routine
  evaluates, not about rounding. C++ \<^verbatim>\<open>int\<close> values are \<^typ>\<open>int\<close>; the remainder
  operator \<^verbatim>\<open>%\<close> is the truncating \<open>smod\<close>, and a value outside the 32-bit range or
  an array access outside the array is a fault, returned as \<open>Inl\<close>.
  Mutable objects are records that each member function takes and returns.
\<close>

datatype fault = OutOfBounds | IntOverflow | DivByZero | BadAlloc

definition int32 :: "int \<Rightarrow> bool" where
  "int32 x \<longleftrightarrow> - (2 ^ 31) \<le> x \<and> x < 2 ^ 31"

section \<open>MyParameters\<close>

text \<open>
  The user parameters read by the modelled classes (\<^verbatim>\<open>MyParameters.h\<close>). A bool
  parameter is read with \<^verbatim>\<open>get()\<close>, a choice parameter through \<^verbatim>\<open>int (...)\<close> (its
  index), a float parameter through its atomic cell. One record is one snapshot of
  the cells.
\<close>

record MyParameters =
  noiseOn :: bool
  noiseGain :: real
  noiseFilter :: real
  noiseDuration :: real
  lfoOn :: bool
  lfoType :: int
  lfoAppliesTo :: int
  lfoFrequency :: real
  lfoDepth :: real
  ampEnvAttack :: real
  ampEnvDecay :: real
  ampEnvSustain :: real
  ampEnvRelease :: real
  ampDistOn :: bool
  ampDistGain :: real
  ampVolume :: real
  delayOn :: bool
  delayType :: int
  delayTime :: real
  delayWetLevel :: real
  delayDryLevel :: real
  delayFeedback :: real
  delayDepth :: real

text \<open>
  The ranges the constructor of \<^verbatim>\<open>MyParameters\<close> declares for these cells
  (\<^verbatim>\<open>makeFloat\<close>, \<^verbatim>\<open>makeSkewedFloat\<close>: minimum and maximum; \<^verbatim>\<open>makeChoice\<close>: the
  number of choices).
\<close>

definition declaredRanges :: "MyParameters \<Rightarrow> bool" where
  "declaredRanges p \<longleftrightarrow>
     0 \<le> noiseGain p \<and> noiseGain p \<le> 1 \<and>
     0 \<le> noiseFilter p \<and> noiseFilter p \<le> 1 \<and>
     0 \<le> noiseDuration p \<and> noiseDuration p \<le> 100 \<and>
     0 \<le> lfoType p \<and> lfoType p < 5 \<and>
     0 \<le> lfoAppliesTo p \<and> lfoAppliesTo p < 10 \<and>
     1 / 10 \<le> lfoFrequency p \<and> lfoFrequency p \<le> 20 \<and>
     0 \<le> lfoDepth p \<and> lfoDepth p \<le> 1 \<and>
     1 / 1000 \<le> ampEnvAttack p \<and> ampEnvAttack p \<le> 1 \<and>
     0 \<le> ampEnvDecay p \<and> ampEnvDecay p \<le> 1 \<and>
     0 \<le> ampEnvSustain p \<and> ampEnvSustain p \<le> 1 \<and>
     0 \<le> ampEnvRelease p \<and> ampEnvRelease p \<le> 1 \<and>
     1 \<le> ampDistGain p \<and> ampDistGain p \<le> 100 \<and>
     0 \<le> ampVolume p \<and> ampVolume p \<le> 1 \<and>
     0 \<le> delayType p \<and> delayType p < 2 \<and>
     0 \<le> delayTime p \<and> delayTime p \<le> 2 \<and>
     0 \<le> delayWetLevel p \<and> delayWetLevel p \<le> 1 \<and>
     0 \<le> delayDryLevel p \<and> delayDryLevel p \<le> 1 \<and>
     0 \<le> delayFeedback p \<and> delayFeedback p \<le> 1 \<and>
     1 / 2 \<le> delayDepth p \<and> delayDepth p \<le> 1"

text \<open>The default values of the same declarations.\<close>

definition defaultParameters :: MyParameters where
  "defaultParameters =
     \<lparr> noiseOn = False, noiseGain = 0, noiseFilter = 1, noiseDuration = 1,
       lfoOn = False, lfoType = 0, lfoAppliesTo = 0, lfoFrequency = 1, lfoDepth = 1 / 2,
       ampEnvAttack = 1 / 10, ampEnvDecay = 33 / 100, ampEnvSustain = 1 / 2,
       ampEnvRelease = 1 / 10, ampDistOn = False, ampDistGain = 1, ampVolume = 1 / 10,
       delayOn = False, delayType = 1, delayTime = 1 / 2, delayWetLevel = 0,
       delayDryLevel = 4 / 10, delayFeedback = 0, delayDepth = 1 \<rparr>"

section \<open>MyLfo\<close>

record MyLfo =
  phaseDelta :: real
  phase :: real

definition pi2 :: real where
  "pi2 = 2 * pi"

definition updatePhaseDelta :: "real \<Rightarrow> real \<Rightarrow> MyLfo \<Rightarrow> MyLfo" where
  "updatePhaseDelta frequency sampleRate l = l\<lparr>phaseDelta := frequency / sampleRate\<rparr>"

definition lfo_updateParams :: "MyParameters \<Rightarrow> real \<Rightarrow> MyLfo \<Rightarrow> MyLfo" where
  "lfo_updateParams p sampleRate l = updatePhaseDelta (lfoFrequency p) sampleRate l"

definition getNextPhase :: "MyLfo \<Rightarrow> real \<times> MyLfo" where
  "getNextPhase l =
     (let ph = phase l + phaseDelta l;
          ph' = (if ph > 1 then ph - 1 else ph)
      in (ph', l\<lparr>phase := ph'\<rparr>))"

definition getNextSampleSine :: "MyLfo \<Rightarrow> real \<times> MyLfo" where
  "getNextSampleSine l = (case getNextPhase l of (ph, l') \<Rightarrow> (sin (pi2 * ph), l'))"

definition getNextSampleTriangle :: "MyLfo \<Rightarrow> real \<times> MyLfo" where
  "getNextSampleTriangle l = (case getNextPhase l of (ph, l') \<Rightarrow> (\<bar>ph - 1 / 2\<bar> * 4 - 1, l'))"

definition getNextSampleSquare :: "MyLfo \<Rightarrow> real \<times> MyLfo" where
  "getNextSampleSquare l =
     (case getNextPhase l of (ph, l') \<Rightarrow> (if ph < 1 / 2 then - 1 else 1, l'))"

definition getNextSampleSaw :: "MyLfo \<Rightarrow> real \<times> MyLfo" where
  "getNextSampleSaw l = (case getNextPhase l of (ph, l') \<Rightarrow> (ph * 2 - 1, l'))"

definition getNextSampleInvertedSaw :: "MyLfo \<Rightarrow> real \<times> MyLfo" where
  "getNextSampleInvertedSaw l = (case getNextSampleSaw l of (s, l') \<Rightarrow> (- s, l'))"

definition lfo_getNextSample :: "MyParameters \<Rightarrow> MyLfo \<Rightarrow> real \<times> MyLfo" where
  "lfo_getNextSample p l =
     (case (if lfoType p = 0 then getNextSampleSine l
            else if lfoType p = 1 then getNextSampleTriangle l
            else if lfoType p = 2 then getNextSampleSquare l
            else if lfoType p = 3 then getNextSampleSaw l
            else if lfoType p = 4 then getNextSampleInvertedSaw l
            else getNextSampleTriangle l)
      of (sample, l') \<Rightarrow> (lfoDepth p * sample, l'))"

definition appliesTo1 :: "MyParameters \<Rightarrow> int \<Rightarrow> bool" where
  "appliesTo1 p index \<longleftrightarrow> lfoOn p \<and> lfoAppliesTo p = index"

definition appliesTo2 :: "MyParameters \<Rightarrow> int \<Rightarrow> int \<Rightarrow> bool" where
  "appliesTo2 p index1 index2 \<longleftrightarrow>
     (let a = lfoAppliesTo p in lfoOn p \<and> (a = index1 \<or> a = index2))"

definition appliesToOsc1Frequency :: "MyParameters \<Rightarrow> bool" where
  "appliesToOsc1Frequency p = appliesTo2 p 0 4"

definition appliesToOsc1Cents :: "MyParameters \<Rightarrow> bool" where
  "appliesToOsc1Cents p = appliesTo2 p 1 5"

definition appliesToOsc2Frequency :: "MyParameters \<Rightarrow> bool" where
  "appliesToOsc2Frequency p = appliesTo2 p 2 4"

definition appliesToOsc2Cents :: "MyParameters \<Rightarrow> bool" where
  "appliesToOsc2Cents p = appliesTo2 p 3 5"

definition appliesToFilterFrequency :: "MyParameters \<Rightarrow> bool" where
  "appliesToFilterFrequency p = appliesTo1 p 6"

definition appliesToFilterQ :: "MyParameters \<Rightarrow> bool" where
  "appliesToFilterQ p = appliesTo1 p 7"

definition appliesToAmpVolume :: "MyParameters \<Rightarrow> bool" where
  "appliesToAmpVolume p = appliesTo1 p 8"

definition appliesToAmpDistortion :: "MyParameters \<Rightarrow> bool" where
  "appliesToAmpDistortion p = appliesTo1 p 9"

section \<open>Library collaborators\<close>

text \<open>
  \<^verbatim>\<open>juce::ADSR\<close>, \<^verbatim>\<open>juce::Random\<close>, \<^verbatim>\<open>juce::IIRFilter\<close> and
  \<^verbatim>\<open>juce::SmoothedValue\<close> belong to the JUCE library; \<^verbatim>\<open>MyOscillator\<close> and
  \<^verbatim>\<open>MyFilter\<close> are used by the voice through their member functions only. Each is
  a parameter of the embedding: a state type together with a record of the member
  functions that the modelled code calls, taking and returning the object's state.
\<close>

record adsr_parameters =
  attack :: real
  decay :: real
  sustain :: real
  release :: real

record 'e ADSR_ops =
  adsr_reset :: "'e \<Rightarrow> 'e"
  adsr_noteOn :: "'e \<Rightarrow> 'e"
  adsr_noteOff :: "'e \<Rightarrow> 'e"
  adsr_getNextSample :: "'e \<Rightarrow> real \<times> 'e"
  adsr_setSampleRate :: "real \<Rightarrow> 'e \<Rightarrow> 'e"
  adsr_setParameters :: "adsr_parameters \<Rightarrow> 'e \<Rightarrow> 'e"

record 'r Random_ops =
  random_nextFloat :: "'r \<Rightarrow> real \<times> 'r"

text \<open>
  \<open>iir_setLowPass sampleRate frequency\<close> stands for
  \<^verbatim>\<open>setCoefficients (IIRCoefficients::makeLowPass (sampleRate, frequency))\<close>.
\<close>

record 'i IIR_ops =
  iir_reset :: "'i \<Rightarrow> 'i"
  iir_setLowPass :: "real \<Rightarrow> real \<Rightarrow> 'i \<Rightarrow> 'i"
  iir_processSingleSampleRaw :: "real \<Rightarrow> 'i \<Rightarrow> real \<times> 'i"

record 'o Osc_ops =
  osc_startNote :: "real \<Rightarrow> 'o \<Rightarrow> 'o"
  osc_updateParams :: "real \<Rightarrow> bool \<Rightarrow> bool \<Rightarrow> real \<Rightarrow> 'o \<Rightarrow> 'o"
  osc_getNextSample :: "'o \<Rightarrow> real \<times> 'o"

record 'f Filter_ops =
  filter_startNote :: "'f \<Rightarrow> 'f"
  filter_stopNote :: "'f \<Rightarrow> 'f"
  filter_apply :: "real \<Rightarrow> real \<Rightarrow> bool \<Rightarrow> bool \<Rightarrow> real \<Rightarrow> 'f \<Rightarrow> real \<times> 'f"

record 's Smoothed_ops =
  sv_reset :: "real \<Rightarrow> real \<Rightarrow> 's \<Rightarrow> 's"
  sv_setCurrentAndTargetValue :: "real \<Rightarrow> 's \<Rightarrow> 's"
  sv_setTargetValue :: "real \<Rightarrow> 's \<Rightarrow> 's"
  sv_getNextValue :: "'s \<Rightarrow> real \<times> 's"

section \<open>MyAmp\<close>

record 'e MyAmp =
  ampEnv :: 'e
  ampEnvParams :: adsr_parameters
  velocityGain :: real
  envVal :: real

text \<open>
  The constructor leaves \<^verbatim>\<open>ampEnv\<close> and \<^verbatim>\<open>ampEnvParams\<close> default-constructed and
  \<^verbatim>\<open>velocityGain\<close> uninitialised (the three arguments); \<^verbatim>\<open>envVal\<close> starts at 0.
\<close>

definition MyAmp_new :: "'e \<Rightarrow> adsr_parameters \<Rightarrow> real \<Rightarrow> 'e MyAmp" where
  "MyAmp_new e0 ep0 v0 = \<lparr> ampEnv = e0, ampEnvParams = ep0, velocityGain = v0, envVal = 0 \<rparr>"

definition amp_startNote :: "'e ADSR_ops \<Rightarrow> real \<Rightarrow> 'e MyAmp \<Rightarrow> 'e MyAmp" where
  "amp_startNote E velocity a =
     a\<lparr> ampEnv := adsr_noteOn E (adsr_reset E (ampEnv a)), velocityGain := velocity \<rparr>"

definition amp_stopNote :: "'e ADSR_ops \<Rightarrow> 'e MyAmp \<Rightarrow> 'e MyAmp" where
  "amp_stopNote E a = a\<lparr> ampEnv := adsr_noteOff E (ampEnv a) \<rparr>"

definition isClosed :: "'e MyAmp \<Rightarrow> bool" where
  "isClosed a \<longleftrightarrow> envVal a < 1 / 1000000"

text \<open>The first parameter of \<^verbatim>\<open>getAmpDist\<close> is declared \<^verbatim>\<open>float\<close> and tested as a condition.\<close>

definition getAmpDist :: "MyParameters \<Rightarrow> real \<Rightarrow> real \<Rightarrow> real" where
  "getAmpDist p applyLfo lfoSample =
     (let g = ampDistGain p
      in if applyLfo \<noteq> 0 then max 0 (g + lfoSample * g) else g)"

definition getAmpVolume :: "MyParameters \<Rightarrow> bool \<Rightarrow> real \<Rightarrow> real" where
  "getAmpVolume p applyLfo lfoSample =
     (let vol = ampVolume p
      in if applyLfo
         then (let lfoVolume = vol + lfoSample * vol in max 0 (min 1 lfoVolume))
         else vol)"

definition amp_apply ::
  "'e ADSR_ops \<Rightarrow> MyParameters \<Rightarrow> real \<Rightarrow> bool \<Rightarrow> bool \<Rightarrow> real \<Rightarrow> 'e MyAmp \<Rightarrow> real \<times> 'e MyAmp" where
  "amp_apply E p sample applyLfoToAmpVolume applyLfoToAmpDist lfoSample a =
     (case adsr_getNextSample E (ampEnv a) of (ev, e') \<Rightarrow>
        (let envSample = velocityGain a * (ev * sample);
             distSample =
               (if ampDistOn p
                then tanh (getAmpDist p (of_bool applyLfoToAmpDist) lfoSample * envSample)
                else envSample)
         in (getAmpVolume p applyLfoToAmpVolume lfoSample * distSample,
             a\<lparr> ampEnv := e', envVal := ev \<rparr>)))"

definition amp_updateParams :: "'e ADSR_ops \<Rightarrow> MyParameters \<Rightarrow> real \<Rightarrow> 'e MyAmp \<Rightarrow> 'e MyAmp" where
  "amp_updateParams E p sampleRate a =
     (let ep = (ampEnvParams a)\<lparr> attack := ampEnvAttack p, decay := ampEnvDecay p,
                                  sustain := ampEnvSustain p, release := ampEnvRelease p \<rparr>
      in a\<lparr> ampEnv := adsr_setParameters E ep (adsr_setSampleRate E sampleRate (ampEnv a)),
            ampEnvParams := ep \<rparr>)"

section \<open>MyNoiseGenerator\<close>

record ('e, 'r, 'i) MyNoiseGenerator =
  random :: 'r
  noiseFilter_iir :: 'i
  noiseEnv :: 'e
  noiseEnvParams :: adsr_parameters

text \<open>
  The constructor fixes three of the four envelope parameters; \<open>ep0\<close> is the
  default-constructed \<^verbatim>\<open>juce::ADSR::Parameters\<close>, whose decay it leaves as it is.
\<close>

definition MyNoiseGenerator_new ::
  "'r \<Rightarrow> 'i \<Rightarrow> 'e \<Rightarrow> adsr_parameters \<Rightarrow> ('e, 'r, 'i) MyNoiseGenerator" where
  "MyNoiseGenerator_new r0 i0 e0 ep0 =
     \<lparr> random = r0, noiseFilter_iir = i0, noiseEnv = e0,
       noiseEnvParams = ep0\<lparr> attack := 1 / 100, sustain := 0, release := 1 / 100 \<rparr> \<rparr>"

definition noise_startNote ::
  "'e ADSR_ops \<Rightarrow> 'i IIR_ops \<Rightarrow> ('e, 'r, 'i) MyNoiseGenerator \<Rightarrow> ('e, 'r, 'i) MyNoiseGenerator" where
  "noise_startNote E I g =
     g\<lparr> noiseFilter_iir := iir_reset I (noiseFilter_iir g),
        noiseEnv := adsr_noteOn E (adsr_reset E (noiseEnv g)) \<rparr>"

definition noise_stopNote ::
  "'e ADSR_ops \<Rightarrow> ('e, 'r, 'i) MyNoiseGenerator \<Rightarrow> ('e, 'r, 'i) MyNoiseGenerator" where
  "noise_stopNote E g = g\<lparr> noiseEnv := adsr_noteOff E (noiseEnv g) \<rparr>"

definition noise_getNextSample ::
  "'e ADSR_ops \<Rightarrow> 'r Random_ops \<Rightarrow> 'i IIR_ops \<Rightarrow> MyParameters \<Rightarrow>
   ('e, 'r, 'i) MyNoiseGenerator \<Rightarrow> real \<times> ('e, 'r, 'i) MyNoiseGenerator" where
  "noise_getNextSample E R I p g =
     (if \<not> noiseOn p then (0, g)
      else
        (case random_nextFloat R (random g) of (u, r') \<Rightarrow>
         (let noiseSample = u * 2 - 1 in
          (case iir_processSingleSampleRaw I noiseSample (noiseFilter_iir g) of (filteredSample, i') \<Rightarrow>
           (case adsr_getNextSample E (noiseEnv g) of (ev, e') \<Rightarrow>
            (let envelopedSample = ev * filteredSample
             in (noiseGain p * envelopedSample,
                 g\<lparr> random := r', noiseFilter_iir := i', noiseEnv := e' \<rparr>)))))))"

definition noise_updateParams ::
  "'e ADSR_ops \<Rightarrow> 'i IIR_ops \<Rightarrow> MyParameters \<Rightarrow> real \<Rightarrow>
   ('e, 'r, 'i) MyNoiseGenerator \<Rightarrow> ('e, 'r, 'i) MyNoiseGenerator" where
  "noise_updateParams E I p sampleRate g =
     (let noiseFilterFreq = noiseFilter p * 5000 + 20;
          noiseDurationVal = noiseDuration p;
          ep = (if noiseDurationVal = 100
                then (noiseEnvParams g)\<lparr> decay := 10000 \<rparr>
                else (noiseEnvParams g)\<lparr> decay := noiseDurationVal \<rparr>)
      in g\<lparr> noiseFilter_iir := iir_setLowPass I sampleRate noiseFilterFreq (noiseFilter_iir g),
            noiseEnvParams := ep,
            noiseEnv := adsr_setParameters E ep (noiseEnv g) \<rparr>)"

section \<open>Faulting primitives\<close>

definition bindF :: "fault + 'a \<Rightarrow> ('a \<Rightarrow> fault + 'b) \<Rightarrow> fault + 'b" where
  "bindF m f = (case m of Inl e \<Rightarrow> Inl e | Inr x \<Rightarrow> f x)"

text \<open>Reading and writing a C array of \<open>length xs\<close> cells at a C \<^verbatim>\<open>int\<close> index.\<close>

definition readAt :: "real list \<Rightarrow> int \<Rightarrow> fault + real" where
  "readAt xs k = (if 0 \<le> k \<and> k < int (length xs) then Inr (xs ! nat k) else Inl OutOfBounds)"

definition writeAt :: "real list \<Rightarrow> int \<Rightarrow> real \<Rightarrow> fault + real list" where
  "writeAt xs k v =
     (if 0 \<le> k \<and> k < int (length xs) then Inr (xs[nat k := v]) else Inl OutOfBounds)"

text \<open>\<^verbatim>\<open>int n = std::floor (x)\<close>: the conversion is defined only inside the \<^verbatim>\<open>int\<close> range.\<close>

definition floorToInt :: "real \<Rightarrow> fault + int" where
  "floorToInt x = (if int32 \<lfloor>x\<rfloor> then Inr \<lfloor>x\<rfloor> else Inl IntOverflow)"

text \<open>The C expression \<^verbatim>\<open>((a - b) + size) % size\<close> on \<^verbatim>\<open>int\<close> operands.\<close>

definition backIndex :: "int \<Rightarrow> int \<Rightarrow> int \<Rightarrow> fault + int" where
  "backIndex a b sz =
     (if \<not> int32 (a - b) \<or> \<not> int32 (a - b + sz) then Inl IntOverflow
      else if sz = 0 then Inl DivByZero
      else Inr ((a - b + sz) smod sz))"

section \<open>MyDelay\<close>

text \<open>
  The state of a \<^verbatim>\<open>MyDelay\<close> after \<^verbatim>\<open>prepareToPlay\<close>: the two arrays are lists, whose
  length is the allocated size.
\<close>

record 's MyDelay =
  leftBuffer :: "real list"
  rightBuffer :: "real list"
  sampleRate :: real
  smoothDelaySamples :: 's
  bufferSize :: int
  currentIndex :: int
  emptyBuffers :: bool

text \<open>The loop of \<^verbatim>\<open>clearBuffers\<close> from cell \<open>i\<close>, with \<open>n\<close> cells left.\<close>

fun clearLoop :: "nat \<Rightarrow> nat \<Rightarrow> real list \<Rightarrow> real list \<Rightarrow> fault + (real list \<times> real list)" where
  "clearLoop i 0 l r = Inr (l, r)"
| "clearLoop i (Suc n) l r =
     bindF (writeAt l (int i) 0) (\<lambda>l'.
     bindF (writeAt r (int i) 0) (\<lambda>r'. clearLoop (Suc i) n l' r'))"

definition clearBuffers :: "'s MyDelay \<Rightarrow> fault + 's MyDelay" where
  "clearBuffers d =
     bindF (clearLoop 0 (nat (bufferSize d)) (leftBuffer d) (rightBuffer d)) (\<lambda>(l, r).
       Inr (d\<lparr> leftBuffer := l, rightBuffer := r, currentIndex := 0, emptyBuffers := True \<rparr>))"

text \<open>
  \<^verbatim>\<open>resetBuffers\<close> allocates both arrays anew, which needs a size that is an
  \<^verbatim>\<open>int\<close> and not negative; their cells hold no defined value before
  \<^verbatim>\<open>clearBuffers\<close> overwrites every one, so the fresh arrays are taken as zero-filled.
\<close>

definition resetBuffers :: "'s MyDelay \<Rightarrow> fault + 's MyDelay" where
  "resetBuffers d =
     (let n = \<lceil>2 * sampleRate d\<rceil> + 1
      in if \<not> int32 n then Inl IntOverflow
         else if n < 0 then Inl BadAlloc
         else clearBuffers (d\<lparr> bufferSize := n, leftBuffer := replicate (nat n) 0,
                                rightBuffer := replicate (nat n) 0 \<rparr>))"

definition prepareToPlay :: "'s Smoothed_ops \<Rightarrow> real \<Rightarrow> 's MyDelay \<Rightarrow> fault + 's MyDelay" where
  "prepareToPlay S sr d =
     bindF (resetBuffers (d\<lparr> sampleRate := sr \<rparr>)) (\<lambda>d1.
       Inr (d1\<lparr> smoothDelaySamples :=
                   sv_setCurrentAndTargetValue S (1 / 2 * sampleRate d1)
                     (sv_reset S sr (1 / 10) (smoothDelaySamples d1)) \<rparr>))"

definition updateParams :: "'s Smoothed_ops \<Rightarrow> MyParameters \<Rightarrow> 's MyDelay \<Rightarrow> 's MyDelay" where
  "updateParams S p d =
     d\<lparr> smoothDelaySamples :=
          sv_setTargetValue S (delayTime p * sampleRate d) (smoothDelaySamples d) \<rparr>"

text \<open>Reached only after \<^verbatim>\<open>applyDelay\<close> has divided by \<^verbatim>\<open>bufferSize\<close> without fault.\<close>

definition incrementCurrentIndex :: "'s MyDelay \<Rightarrow> 's MyDelay" where
  "incrementCurrentIndex d = d\<lparr> currentIndex := (currentIndex d + 1) smod bufferSize d \<rparr>"

text \<open>
  \<^verbatim>\<open>applyDelay (channel, sampleIndex, buffer, delaySamples)\<close> returns the channel and
  the delay buffer as it leaves them.
\<close>

definition applyDelay ::
  "MyParameters \<Rightarrow> 's MyDelay \<Rightarrow> real list \<Rightarrow> nat \<Rightarrow> real list \<Rightarrow> real \<Rightarrow>
   fault + (real list \<times> real list)" where
  "applyDelay p d channel sampleIndex buffer delaySamples =
     bindF (readAt channel (int sampleIndex)) (\<lambda>originalSample.
     bindF (floorToInt delaySamples) (\<lambda>sampleDelay.
     let decimal = delaySamples - of_int sampleDelay in
     bindF (backIndex (currentIndex d) sampleDelay (bufferSize d)) (\<lambda>rightIndex.
     bindF (backIndex rightIndex 1 (bufferSize d)) (\<lambda>leftIndex.
     bindF (readAt buffer leftIndex) (\<lambda>bl.
     bindF (readAt buffer rightIndex) (\<lambda>br.
     let delayedSample = (1 - decimal) * bl + decimal * br;
         newSample = delayDryLevel p * originalSample + delayWetLevel p * delayedSample in
     bindF (writeAt buffer (currentIndex d) (originalSample + delayFeedback p * delayedSample))
       (\<lambda>buffer'. Inr (channel[sampleIndex := newSample], buffer'))))))))"

text \<open>
  One iteration of the loop of \<^verbatim>\<open>apply\<close> at sample \<open>i\<close>; \<open>right\<close> is \<open>None\<close> when no
  right channel is available.
\<close>

definition MyDelay_sample ::
  "'s Smoothed_ops \<Rightarrow> MyParameters \<Rightarrow> nat \<Rightarrow> real list \<Rightarrow> real list option \<Rightarrow> 's MyDelay \<Rightarrow>
   fault + (real list \<times> real list option \<times> 's MyDelay)" where
  "MyDelay_sample S p i left right d =
     (let d1 = updateParams S p d in
      case sv_getNextValue S (smoothDelaySamples d1) of (delaySamples, sm') \<Rightarrow>
      let d2 = d1\<lparr> smoothDelaySamples := sm' \<rparr> in
      bindF (applyDelay p d2 left i (leftBuffer d2) delaySamples) (\<lambda>(left', lb').
      let d3 = d2\<lparr> leftBuffer := lb' \<rparr> in
      bindF (case right of
               None \<Rightarrow> Inr (None, d3)
             | Some r \<Rightarrow>
                 bindF (applyDelay p d3 r i (rightBuffer d3) delaySamples) (\<lambda>(r', rb').
                   Inr (Some r', d3\<lparr> rightBuffer := rb' \<rparr>)))
        (\<lambda>(right', d4). Inr (left', right', incrementCurrentIndex d4))))"

fun MyDelay_loop ::
  "'s Smoothed_ops \<Rightarrow> MyParameters \<Rightarrow> nat \<Rightarrow> nat \<Rightarrow> real list \<Rightarrow> real list option \<Rightarrow> 's MyDelay \<Rightarrow>
   fault + (real list \<times> real list option \<times> 's MyDelay)" where
  "MyDelay_loop S p i 0 left right d = Inr (left, right, d)"
| "MyDelay_loop S p i (Suc n) left right d =
     bindF (MyDelay_sample S p i left right d) (\<lambda>(left', right', d').
       MyDelay_loop S p (Suc i) n left' right' d')"

text \<open>
  The audio buffer is the list of its channels. \<^verbatim>\<open>getWritePointer (c)\<close> needs channel
  \<open>c\<close> to exist; the loop works through the two pointers, so its result is stored
  back into channels 0 and 1.
\<close>

definition MyDelay_apply ::
  "'s Smoothed_ops \<Rightarrow> MyParameters \<Rightarrow> real list list \<Rightarrow> int \<Rightarrow> int \<Rightarrow> 's MyDelay \<Rightarrow>
   fault + (real list list \<times> 's MyDelay)" where
  "MyDelay_apply S p buffer numSamples numChannels d =
     (if \<not> delayOn p then
        (if \<not> emptyBuffers d then bindF (clearBuffers d) (\<lambda>d'. Inr (buffer, d'))
         else Inr (buffer, d))
      else
        (let d0 = d\<lparr> emptyBuffers := False \<rparr>;
             rightChannelAvailable = (numChannels > 1)
         in if length buffer < 1 then Inl OutOfBounds
            else if rightChannelAvailable \<and> length buffer < 2 then Inl OutOfBounds
            else
              bindF (MyDelay_loop S p 0 (nat numSamples) (buffer ! 0)
                       (if rightChannelAvailable then Some (buffer ! 1) else None) d0)
                (\<lambda>(left', right', d').
                   Inr (case right' of
                          None \<Rightarrow> buffer[0 := left']
                        | Some r' \<Rightarrow> buffer[0 := left', 1 := r'], d'))))"

section \<open>MyPingPongDelay\<close>

record 's MyPingPongDelay =
  leftDelayBuffer :: "real list"
  rightDelayBuffer :: "real list"
  pp_sampleRate :: real
  smoothDelayInSamples :: 's
  smoothFrequency :: 's
  pp_bufferSize :: int
  pp_currentIndex :: int
  pp_emptyBuffers :: bool

definition pp_clearBuffers :: "'s MyPingPongDelay \<Rightarrow> fault + 's MyPingPongDelay" where
  "pp_clearBuffers d =
     bindF (clearLoop 0 (nat (pp_bufferSize d)) (leftDelayBuffer d) (rightDelayBuffer d)) (\<lambda>(l, r).
       Inr (d\<lparr> leftDelayBuffer := l, rightDelayBuffer := r, pp_currentIndex := 0,
              pp_emptyBuffers := True \<rparr>))"

definition pp_resetBuffers :: "'s MyPingPongDelay \<Rightarrow> fault + 's MyPingPongDelay" where
  "pp_resetBuffers d =
     (let n = \<lceil>4 * pp_sampleRate d\<rceil> + 1
      in if \<not> int32 n then Inl IntOverflow
         else if n < 0 then Inl BadAlloc
         else pp_clearBuffers (d\<lparr> pp_bufferSize := n, leftDelayBuffer := replicate (nat n) 0,
                                   rightDelayBuffer := replicate (nat n) 0 \<rparr>))"

text \<open>
  \<^verbatim>\<open>prepareToPlay\<close> resets \<^verbatim>\<open>smoothFrequency\<close> and then sets
  \<^verbatim>\<open>smoothDelayInSamples\<close> a second time, as written in the source.
\<close>

definition pp_prepareToPlay ::
  "'s Smoothed_ops \<Rightarrow> real \<Rightarrow> 's MyPingPongDelay \<Rightarrow> fault + 's MyPingPongDelay" where
  "pp_prepareToPlay S sr d =
     bindF (pp_resetBuffers (d\<lparr> pp_sampleRate := sr \<rparr>)) (\<lambda>d1.
       let d2 = d1\<lparr> smoothDelayInSamples :=
                      sv_setCurrentAndTargetValue S (1 / 2 * pp_sampleRate d1)
                        (sv_reset S sr (1 / 10) (smoothDelayInSamples d1)) \<rparr>;
           d3 = d2\<lparr> smoothFrequency := sv_reset S sr (1 / 10) (smoothFrequency d2) \<rparr>
       in Inr (d3\<lparr> smoothDelayInSamples :=
                      sv_setCurrentAndTargetValue S (1 / 2 * pp_sampleRate d3)
                        (smoothDelayInSamples d3) \<rparr>))"

definition getInterpolatedDelayedSample :: "'s MyPingPongDelay \<Rightarrow> real list \<Rightarrow> real \<Rightarrow> fault + real" where
  "getInterpolatedDelayedSample d buffer exactDelayInSamples =
     bindF (floorToInt exactDelayInSamples) (\<lambda>delayInSamplesInt.
     let delayInSamplesDecimal = exactDelayInSamples - of_int delayInSamplesInt in
     bindF (backIndex (pp_currentIndex d) delayInSamplesInt (pp_bufferSize d)) (\<lambda>rightIndex.
     bindF (backIndex rightIndex 1 (pp_bufferSize d)) (\<lambda>leftIndex.
     bindF (readAt buffer leftIndex) (\<lambda>bl.
     bindF (readAt buffer rightIndex) (\<lambda>br.
       Inr ((1 - delayInSamplesDecimal) * bl + delayInSamplesDecimal * br))))))"

text \<open>
  With a delay time of zero the source divides a \<^verbatim>\<open>float\<close> by zero for the target
  of \<^verbatim>\<open>smoothFrequency\<close>, a value that nothing reads.
\<close>

definition pp_updateParams :: "'s Smoothed_ops \<Rightarrow> MyParameters \<Rightarrow> 's MyPingPongDelay \<Rightarrow> 's MyPingPongDelay" where
  "pp_updateParams S p d =
     (let t = delayTime p
      in d\<lparr> smoothDelayInSamples :=
              sv_setTargetValue S (t * pp_sampleRate d) (smoothDelayInSamples d),
            smoothFrequency := sv_setTargetValue S (1 / (2 * t)) (smoothFrequency d) \<rparr>)"

definition pp_incrementCurrentIndex :: "'s MyPingPongDelay \<Rightarrow> 's MyPingPongDelay" where
  "pp_incrementCurrentIndex d =
     d\<lparr> pp_currentIndex := (pp_currentIndex d + 1) smod pp_bufferSize d \<rparr>"

text \<open>
  One iteration of the loop of \<^verbatim>\<open>apply\<close> at sample \<open>i\<close>. Without a right channel
  \<^verbatim>\<open>originalRightSample\<close> is neither assigned nor read; the pair then carries the
  left sample in its place.

  Each output is a sum of three \<^verbatim>\<open>float\<close> terms, which C++ adds from left to right,
  and the two channels list the two delayed terms in opposite order. What the two
  sums have in common therefore depends on the \<^verbatim>\<open>float\<close> addition itself, which does
  not associate; for these sums the addition is the parameter \<open>fadd\<close> of the model,
  of which nothing is assumed.
\<close>

definition MyPingPongDelay_sample ::
  "(real \<Rightarrow> real \<Rightarrow> real) \<Rightarrow> 's Smoothed_ops \<Rightarrow> MyParameters \<Rightarrow> nat \<Rightarrow> real list \<Rightarrow>
   real list option \<Rightarrow> 's MyPingPongDelay \<Rightarrow>
   fault + (real list \<times> real list option \<times> 's MyPingPongDelay)" where
  "MyPingPongDelay_sample fadd S p i left right d =
     (let d1 = pp_updateParams S p d in
      case sv_getNextValue S (smoothDelayInSamples d1) of (exactDelayInSamples, sm') \<Rightarrow>
      let d2 = d1\<lparr> smoothDelayInSamples := sm' \<rparr> in
      bindF (readAt left (int i)) (\<lambda>originalLeftSample.
      bindF (case right of
               None \<Rightarrow> Inr (originalLeftSample, originalLeftSample)
             | Some r \<Rightarrow>
                 bindF (readAt r (int i)) (\<lambda>originalRightSample.
                   Inr (originalRightSample, (originalLeftSample + originalRightSample) / 2)))
        (\<lambda>(originalRightSample, originalSample).
      bindF (getInterpolatedDelayedSample d2 (leftDelayBuffer d2) exactDelayInSamples)
        (\<lambda>delayedLeftSample.
      bindF (getInterpolatedDelayedSample d2 (rightDelayBuffer d2) (2 * exactDelayInSamples))
        (\<lambda>delayedRightSample.
      bindF (writeAt (leftDelayBuffer d2) (pp_currentIndex d2)
               (originalSample + delayFeedback p * delayedLeftSample)) (\<lambda>lb'.
      bindF (writeAt (rightDelayBuffer d2) (pp_currentIndex d2)
               (originalSample + delayFeedback p / 2 * delayedRightSample)) (\<lambda>rb'.
      let d3 = d2\<lparr> leftDelayBuffer := lb', rightDelayBuffer := rb' \<rparr>;
          sameChannelGain = delayDepth p;
          otherChannelGain = 1 - sameChannelGain;
          wet = delayWetLevel p;
          leveledDelayedLeftSample = wet * delayedLeftSample;
          leveledDelayedRightSample = wet * delayedRightSample;
          left' = left[i := fadd (fadd (delayDryLevel p * originalLeftSample)
                                       (sameChannelGain * leveledDelayedLeftSample))
                                 (otherChannelGain * leveledDelayedRightSample)];
          right' = (case right of
                      None \<Rightarrow> None
                    | Some r \<Rightarrow>
                        Some (r[i := fadd (fadd (delayDryLevel p * originalRightSample)
                                                (sameChannelGain * leveledDelayedRightSample))
                                          (otherChannelGain * leveledDelayedLeftSample)]))
      in Inr (left', right', pp_incrementCurrentIndex d3))))))))"

fun MyPingPongDelay_loop ::
  "(real \<Rightarrow> real \<Rightarrow> real) \<Rightarrow> 's Smoothed_ops \<Rightarrow> MyParameters \<Rightarrow> nat \<Rightarrow> nat \<Rightarrow> real list \<Rightarrow>
   real list option \<Rightarrow> 's MyPingPongDelay \<Rightarrow>
   fault + (real list \<times> real list option \<times> 's MyPingPongDelay)" where
  "MyPingPongDelay_loop fadd S p i 0 left right d = Inr (left, right, d)"
| "MyPingPongDelay_loop fadd S p i (Suc n) left right d =
     bindF (MyPingPongDelay_sample fadd S p i left right d) (\<lambda>(left', right', d').
       MyPingPongDelay_loop fadd S p (Suc i) n left' right' d')"

definition MyPingPongDelay_apply ::
  "(real \<Rightarrow> real \<Rightarrow> real) \<Rightarrow> 's Smoothed_ops \<Rightarrow> MyParameters \<Rightarrow> real list list \<Rightarrow> int \<Rightarrow> int \<Rightarrow>
   's MyPingPongDelay \<Rightarrow> fault + (real list list \<times> 's MyPingPongDelay)" where
  "MyPingPongDelay_apply fadd S p buffer numSamples numChannels d =
     (if \<not> delayOn p then
        (if \<not> pp_emptyBuffers d then bindF (pp_clearBuffers d) (\<lambda>d'. Inr (buffer, d'))
         else Inr (buffer, d))
      else
        (let d0 = d\<lparr> pp_emptyBuffers := False \<rparr>;
             rightChannelAvailable = (numChannels > 1)
         in if length buffer < 1 then Inl OutOfBounds
            else if rightChannelAvailable \<and> length buffer < 2 then Inl OutOfBounds
            else
              bindF (MyPingPongDelay_loop fadd S p 0 (nat numSamples) (buffer ! 0)
                       (if rightChannelAvailable then Some (buffer ! 1) else None) d0)
                (\<lambda>(left', right', d').
                   Inr (case right' of
                          None \<Rightarrow> buffer[0 := left']
                        | Some r' \<Rightarrow> buffer[0 := left', 1 := r'], d'))))"

section \<open>Stand-ins for the library collaborators\<close>

text \<open>
  Simple instances of the collaborator records, for evaluating the modelled code on
  concrete inputs: an envelope that hands out a given list of values and then 0, a
  random source and an oscillator that repeat one value, filters that pass their
  input through, and a smoothed value that reaches its target at once.
\<close>

definition listADSR :: "real list ADSR_ops" where
  "listADSR =
     \<lparr> adsr_reset = (\<lambda>e. e), adsr_noteOn = (\<lambda>e. e), adsr_noteOff = (\<lambda>e. e),
       adsr_getNextSample = (\<lambda>e. case e of [] \<Rightarrow> (0, []) | x # xs \<Rightarrow> (x, xs)),
       adsr_setSampleRate = (\<lambda>sr e. e), adsr_setParameters = (\<lambda>ps e. e) \<rparr>"

definition constRandom :: "real Random_ops" where
  "constRandom = \<lparr> random_nextFloat = (\<lambda>r. (r, r)) \<rparr>"

definition passIIR :: "unit IIR_ops" where
  "passIIR =
     \<lparr> iir_reset = (\<lambda>i. i), iir_setLowPass = (\<lambda>sr f i. i),
       iir_processSingleSampleRaw = (\<lambda>x i. (x, i)) \<rparr>"

definition constOsc :: "real Osc_ops" where
  "constOsc =
     \<lparr> osc_startNote = (\<lambda>f o1. o1), osc_updateParams = (\<lambda>sr a b l o1. o1),
       osc_getNextSample = (\<lambda>o1. (o1, o1)) \<rparr>"

definition passFilter :: "unit Filter_ops" where
  "passFilter =
     \<lparr> filter_startNote = (\<lambda>f. f), filter_stopNote = (\<lambda>f. f),
       filter_apply = (\<lambda>sr x a b l f. (x, f)) \<rparr>"

definition instantSmoothed :: "real Smoothed_ops" where
  "instantSmoothed =
     \<lparr> sv_reset = (\<lambda>sr t s. s), sv_setCurrentAndTargetValue = (\<lambda>v s. v),
       sv_setTargetValue = (\<lambda>v s. v), sv_getNextValue = (\<lambda>s. (s, s)) \<rparr>"

definition juceDefaultADSR :: adsr_parameters where
  "juceDefaultADSR = \<lparr> attack = 1 / 10, decay = 1 / 10, sustain = 1, release = 1 / 10 \<rparr>"

section \<open>MySynthVoice\<close>

record ('o, 'f, 'e, 'r, 'i) collaborators =
  oscOps :: "'o Osc_ops"
  filterOps :: "'f Filter_ops"
  adsrOps :: "'e ADSR_ops"
  randomOps :: "'r Random_ops"
  iirOps :: "'i IIR_ops"

text \<open>
  The members of \<^verbatim>\<open>MySynthVoice\<close>, and of its base class \<^verbatim>\<open>juce::SynthesiserVoice\<close>
  the sample rate returned by \<^verbatim>\<open>getSampleRate()\<close> and the note number that
  \<^verbatim>\<open>clearCurrentNote()\<close> sets to \<open>-1\<close>, by which the synthesiser tells a free voice
  from a busy one.
\<close>

record ('o, 'f, 'e, 'r, 'i) MySynthVoice =
  playing :: bool
  ending :: bool
  osc1 :: 'o
  osc2 :: 'o
  noiseGen :: "('e, 'r, 'i) MyNoiseGenerator"
  lfo :: MyLfo
  voiceFilter :: 'f
  amp :: "'e MyAmp"
  currentSampleRate :: real
  currentlyPlayingNote :: int

definition clearCurrentNote ::
  "('o, 'f, 'e, 'r, 'i) MySynthVoice \<Rightarrow> ('o, 'f, 'e, 'r, 'i) MySynthVoice" where
  "clearCurrentNote v = v\<lparr> currentlyPlayingNote := - 1 \<rparr>"

definition getMidiNoteInHertz :: "int \<Rightarrow> real" where
  "getMidiNoteInHertz n = 440 * 2 powr ((real_of_int n - 69) / 12)"

definition voice_startNote ::
  "('o, 'f, 'e, 'r, 'i) collaborators \<Rightarrow> int \<Rightarrow> real \<Rightarrow>
   ('o, 'f, 'e, 'r, 'i) MySynthVoice \<Rightarrow> ('o, 'f, 'e, 'r, 'i) MySynthVoice" where
  "voice_startNote X midiNoteNumber velocity v =
     (let frequency = getMidiNoteInHertz midiNoteNumber
      in v\<lparr> playing := True, ending := False,
            osc1 := osc_startNote (oscOps X) frequency (osc1 v),
            osc2 := osc_startNote (oscOps X) frequency (osc2 v),
            noiseGen := noise_startNote (adsrOps X) (iirOps X) (noiseGen v),
            voiceFilter := filter_startNote (filterOps X) (voiceFilter v),
            amp := amp_startNote (adsrOps X) velocity (amp v) \<rparr>)"

definition voice_stopNote ::
  "('o, 'f, 'e, 'r, 'i) collaborators \<Rightarrow> bool \<Rightarrow>
   ('o, 'f, 'e, 'r, 'i) MySynthVoice \<Rightarrow> ('o, 'f, 'e, 'r, 'i) MySynthVoice" where
  "voice_stopNote X allowTailOff v =
     (let v1 = v\<lparr> noiseGen := noise_stopNote (adsrOps X) (noiseGen v),
                   voiceFilter := filter_stopNote (filterOps X) (voiceFilter v),
                   amp := amp_stopNote (adsrOps X) (amp v) \<rparr>
      in if allowTailOff then v1\<lparr> ending := True \<rparr>
         else (clearCurrentNote v1)\<lparr> playing := False \<rparr>)"

text \<open>\<^verbatim>\<open>AudioBuffer::addSample (chan, index, value)\<close> on the list of channels.\<close>

definition addSample :: "real list list \<Rightarrow> nat \<Rightarrow> int \<Rightarrow> real \<Rightarrow> fault + real list list" where
  "addSample buffer chan idx v =
     (if chan < length buffer
      then bindF (readAt (buffer ! chan) idx) (\<lambda>old.
           bindF (writeAt (buffer ! chan) idx (old + v)) (\<lambda>ch'.
             Inr (buffer[chan := ch'])))
      else Inl OutOfBounds)"

text \<open>The loop over the channels, from channel \<open>chan\<close>, with \<open>n\<close> channels left.\<close>

fun addToChannels :: "real list list \<Rightarrow> nat \<Rightarrow> nat \<Rightarrow> int \<Rightarrow> real \<Rightarrow> fault + real list list" where
  "addToChannels buffer chan 0 idx v = Inr buffer"
| "addToChannels buffer chan (Suc n) idx v =
     bindF (addSample buffer chan idx v) (\<lambda>buffer'. addToChannels buffer' (Suc chan) n idx v)"

text \<open>
  The first part of the loop body of \<^verbatim>\<open>renderNextBlock\<close>: the LFO sample, the
  oscillators, the noise, the filter and the amplifier, up to \<^verbatim>\<open>ampedSample\<close>.
\<close>

definition voice_nextSample ::
  "('o, 'f, 'e, 'r, 'i) collaborators \<Rightarrow> MyParameters \<Rightarrow> real \<Rightarrow>
   ('o, 'f, 'e, 'r, 'i) MySynthVoice \<Rightarrow> real \<times> ('o, 'f, 'e, 'r, 'i) MySynthVoice" where
  "voice_nextSample X p sr v =
     (case lfo_getNextSample p (lfo_updateParams p sr (lfo v)) of (lfoSample, l') \<Rightarrow>
      let o1 = osc_updateParams (oscOps X) sr (appliesToOsc1Frequency p) (appliesToOsc1Cents p)
                 lfoSample (osc1 v);
          o2 = osc_updateParams (oscOps X) sr (appliesToOsc2Frequency p) (appliesToOsc2Cents p)
                 lfoSample (osc2 v)
      in
      case osc_getNextSample (oscOps X) o1 of (s1, o1') \<Rightarrow>
      case osc_getNextSample (oscOps X) o2 of (s2, o2') \<Rightarrow>
      case noise_getNextSample (adsrOps X) (randomOps X) (iirOps X) p (noiseGen v) of (s3, g') \<Rightarrow>
      let sourceSample = s1 + s2 + s3 in
      case filter_apply (filterOps X) sr sourceSample (appliesToFilterFrequency p)
             (appliesToFilterQ p) lfoSample (voiceFilter v) of (filteredSample, f') \<Rightarrow>
      case amp_apply (adsrOps X) p filteredSample (appliesToAmpVolume p)
             (appliesToAmpDistortion p) lfoSample (amp v) of (ampedSample, a') \<Rightarrow>
        (ampedSample,
         v\<lparr> lfo := l', osc1 := o1', osc2 := o2', noiseGen := g', voiceFilter := f', amp := a' \<rparr>))"

text \<open>
  The whole loop body at \<open>sampleIndex\<close>: the sample is added to every channel of the
  output buffer, then the note is cleared if it is ending and the amplifier is closed.
\<close>

definition voice_sample ::
  "('o, 'f, 'e, 'r, 'i) collaborators \<Rightarrow> MyParameters \<Rightarrow> real \<Rightarrow> real list list \<Rightarrow> int \<Rightarrow>
   ('o, 'f, 'e, 'r, 'i) MySynthVoice \<Rightarrow>
   fault + (real list list \<times> ('o, 'f, 'e, 'r, 'i) MySynthVoice)" where
  "voice_sample X p sr outputBuffer sampleIndex v =
     (case voice_nextSample X p sr v of (ampedSample, v1) \<Rightarrow>
      bindF (addToChannels outputBuffer 0 (length outputBuffer) sampleIndex ampedSample)
        (\<lambda>buffer'.
           Inr (buffer',
                if ending v1 \<and> isClosed (amp v1)
                then (clearCurrentNote v1)\<lparr> playing := False, ending := False \<rparr>
                else v1)))"

fun render_loop ::
  "('o, 'f, 'e, 'r, 'i) collaborators \<Rightarrow> MyParameters \<Rightarrow> real \<Rightarrow> real list list \<Rightarrow> int \<Rightarrow> nat \<Rightarrow>
   ('o, 'f, 'e, 'r, 'i) MySynthVoice \<Rightarrow>
   fault + (real list list \<times> ('o, 'f, 'e, 'r, 'i) MySynthVoice)" where
  "render_loop X p sr outputBuffer sampleIndex 0 v = Inr (outputBuffer, v)"
| "render_loop X p sr outputBuffer sampleIndex (Suc n) v =
     bindF (voice_sample X p sr outputBuffer sampleIndex v) (\<lambda>(buffer', v').
       render_loop X p sr buffer' (sampleIndex + 1) n v')"

definition renderNextBlock ::
  "('o, 'f, 'e, 'r, 'i) collaborators \<Rightarrow> MyParameters \<Rightarrow> real list list \<Rightarrow> int \<Rightarrow> int \<Rightarrow>
   ('o, 'f, 'e, 'r, 'i) MySynthVoice \<Rightarrow>
   fault + (real list list \<times> ('o, 'f, 'e, 'r, 'i) MySynthVoice)" where
  "renderNextBlock X p outputBuffer startSample numSamples v =
     (if playing v then
        (let sr = currentSampleRate v;
             v1 = v\<lparr> noiseGen := noise_updateParams (adsrOps X) (iirOps X) p sr (noiseGen v),
                      amp := amp_updateParams (adsrOps X) p sr (amp v) \<rparr>
         in render_loop X p sr outputBuffer startSample (nat numSamples) v1)
      else Inr (outputBuffer, v))"

definition standIns :: "(real, unit, real list, real, unit) collaborators" where
  "standIns =
     \<lparr> oscOps = constOsc, filterOps = passFilter, adsrOps = listADSR,
       randomOps = constRandom, iirOps = passIIR \<rparr>"

text \<open>
  A \<^verbatim>\<open>MyDelay\<close> and a \<^verbatim>\<open>MyPingPongDelay\<close> prepared at a sample rate of 1 Hz
  (3 and 5 cells) with some samples already in their lines, and a parameter
  snapshot with the delay switched on.
\<close>

definition exampleDelay :: "real MyDelay" where
  "exampleDelay =
     \<lparr> leftBuffer = [1, 2, 4], rightBuffer = [8, 16, 32], sampleRate = 1,
       smoothDelaySamples = 0, bufferSize = 3, currentIndex = 0, emptyBuffers = False \<rparr>"

definition examplePingPong :: "real MyPingPongDelay" where
  "examplePingPong =
     \<lparr> leftDelayBuffer = [1, 2, 4, 8, 16], rightDelayBuffer = [3, 9, 27, 81, 243],
       pp_sampleRate = 1, smoothDelayInSamples = 0, smoothFrequency = 0, pp_bufferSize = 5,
       pp_currentIndex = 0, pp_emptyBuffers = False \<rparr>"

definition exampleParameters :: MyParameters where
  "exampleParameters =
     defaultParameters\<lparr> lfoType := 1, delayOn := True, delayTime := 3 / 2, delayWetLevel := 1,
       delayDryLevel := 1 / 2, delayFeedback := 1 / 2, delayDepth := 1 / 2 \<rparr>"

text \<open>
  A voice in its release tail: the envelope of its amplifier is about to hand out
  \<open>5\<cdot>10\<^sup>-\<^sup>7\<close> and then \<open>2.5\<cdot>10\<^sup>-\<^sup>7\<close>, two steps of a release ramp below the closing
  threshold, and each oscillator produces the constant 0.5.
\<close>

definition exampleVoice :: "(real, unit, real list, real, unit) MySynthVoice" where
  "exampleVoice =
     \<lparr> playing = True, ending = True, osc1 = 1 / 2, osc2 = 1 / 2,
       noiseGen = MyNoiseGenerator_new 0 () [] juceDefaultADSR,
       lfo = \<lparr> phaseDelta = 0, phase = 0 \<rparr>, voiceFilter = (),
       amp = \<lparr> ampEnv = [1 / 2000000, 1 / 4000000], ampEnvParams = juceDefaultADSR,
               velocityGain = 1, envVal = 1 / 2 \<rparr>,
       currentSampleRate = 48000, currentlyPlayingNote = 60 \<rparr>"

text \<open>
  A sounding voice whose samples are exact in \<^verbatim>\<open>float\<close>: with a volume
  parameter of 0.5 and an envelope value of 0.25 on a source of 1 the amplifier
  puts out 0.125.
\<close>

definition exampleLoudVoice :: "(real, unit, real list, real, unit) MySynthVoice" where
  "exampleLoudVoice =
     \<lparr> playing = True, ending = False, osc1 = 1 / 2, osc2 = 1 / 2,
       noiseGen = MyNoiseGenerator_new 0 () [] juceDefaultADSR,
       lfo = \<lparr> phaseDelta = 0, phase = 0 \<rparr>, voiceFilter = (),
       amp = \<lparr> ampEnv = [1 / 4, 1 / 4], ampEnvParams = juceDefaultADSR,
               velocityGain = 1, envVal = 1 / 2 \<rparr>,
       currentSampleRate = 48000, currentlyPlayingNote = 60 \<rparr>"

definition exampleLoudParameters :: MyParameters where
  "exampleLoudParameters = exampleParameters\<lparr> ampVolume := 1 / 2 \<rparr>"

section \<open>Specification-side definitions\<close>

text \<open>
  The fractional read in the words of the specification: with \<open>i\<close> the floor of
  the delay distance and \<open>f\<close> its fractional part, the read index is
  \<open>(writeIndex - i + capacity) mod capacity\<close>, its neighbour
  \<open>(readIndex - 1 + capacity) mod capacity\<close>, and the value
  \<open>(1 - f)\<cdot>buffer[neighbour] + f\<cdot>buffer[readIndex]\<close>.
\<close>

definition spec_fractionalRead :: "real list \<Rightarrow> int \<Rightarrow> int \<Rightarrow> real \<Rightarrow> real" where
  "spec_fractionalRead buf writeIndex capacity dly =
     (let i = \<lfloor>dly\<rfloor>;
          f = dly - of_int i;
          readIndex = (writeIndex - i + capacity) mod capacity;
          neighbor = (readIndex - 1 + capacity) mod capacity
      in (1 - f) * buf ! nat neighbor + f * buf ! nat readIndex)"

text \<open>
  A delay as \<^verbatim>\<open>prepareToPlay\<close> and \<^verbatim>\<open>apply\<close> keep it: both arrays have
  \<^verbatim>\<open>bufferSize\<close> cells, the write index lies within them, and the size leaves room
  for the index arithmetic in 32 bits.
\<close>

definition delayReady :: "'s MyDelay \<Rightarrow> bool" where
  "delayReady d \<longleftrightarrow>
     0 < bufferSize d \<and> bufferSize d < 2 ^ 30 \<and>
     length (leftBuffer d) = nat (bufferSize d) \<and>
     length (rightBuffer d) = nat (bufferSize d) \<and>
     0 \<le> currentIndex d \<and> currentIndex d < bufferSize d"

definition pp_delayReady :: "'s MyPingPongDelay \<Rightarrow> bool" where
  "pp_delayReady d \<longleftrightarrow>
     0 < pp_bufferSize d \<and> pp_bufferSize d < 2 ^ 30 \<and>
     length (leftDelayBuffer d) = nat (pp_bufferSize d) \<and>
     length (rightDelayBuffer d) = nat (pp_bufferSize d) \<and>
     0 \<le> pp_currentIndex d \<and> pp_currentIndex d < pp_bufferSize d"

text \<open>A delay with both lines zeroed, the write index at 0 and the flag raised.\<close>

definition cleared :: "'s MyDelay \<Rightarrow> 's MyDelay" where
  "cleared d =
     d\<lparr> leftBuffer := replicate (nat (bufferSize d)) 0,
        rightBuffer := replicate (nat (bufferSize d)) 0,
        currentIndex := 0, emptyBuffers := True \<rparr>"

definition pp_cleared :: "'s MyPingPongDelay \<Rightarrow> 's MyPingPongDelay" where
  "pp_cleared q =
     q\<lparr> leftDelayBuffer := replicate (nat (pp_bufferSize q)) 0,
        rightDelayBuffer := replicate (nat (pp_bufferSize q)) 0,
        pp_currentIndex := 0, pp_emptyBuffers := True \<rparr>"

text \<open>
  The next \<open>n\<close> values that the smoothed delay distance yields, each after its
  target has been set to \<open>target\<close>, lie in \<open>[0, bound)\<close>.
\<close>

fun delaysWithin :: "'s Smoothed_ops \<Rightarrow> real \<Rightarrow> real \<Rightarrow> nat \<Rightarrow> 's \<Rightarrow> bool" where
  "delaysWithin S target bound 0 sm = True"
| "delaysWithin S target bound (Suc n) sm =
     (case sv_getNextValue S (sv_setTargetValue S target sm) of (v, sm') \<Rightarrow>
        0 \<le> v \<and> v < bound \<and> delaysWithin S target bound n sm')"

text \<open>
  The delay block in the words of the specification. At a delay state \<open>d\<close> the
  smoothed distance is the next value of the smoothed delay time, and the delayed
  sample of a line is its fractional read at that distance from the write index.
  One sample with inputs \<open>l\<close> and \<open>r\<close> writes \<open>original + feedback\<cdot>delayed\<close> into each
  line at the write index and then advances the write index once;
  \<open>spec_delayState \<dots> k d\<close> is the state after the first \<open>k\<close> samples of the inputs.
\<close>

definition spec_delayDistance :: "'s Smoothed_ops \<Rightarrow> MyParameters \<Rightarrow> 's MyDelay \<Rightarrow> real" where
  "spec_delayDistance S p d =
     fst (sv_getNextValue S (sv_setTargetValue S (delayTime p * sampleRate d) (smoothDelaySamples d)))"

definition spec_delayed :: "'s Smoothed_ops \<Rightarrow> MyParameters \<Rightarrow> real list \<Rightarrow> 's MyDelay \<Rightarrow> real" where
  "spec_delayed S p line d =
     spec_fractionalRead line (currentIndex d) (bufferSize d) (spec_delayDistance S p d)"

definition spec_delayStep ::
  "'s Smoothed_ops \<Rightarrow> MyParameters \<Rightarrow> real \<Rightarrow> real option \<Rightarrow> 's MyDelay \<Rightarrow> 's MyDelay" where
  "spec_delayStep S p l r d =
     d\<lparr> smoothDelaySamples :=
          snd (sv_getNextValue S
                 (sv_setTargetValue S (delayTime p * sampleRate d) (smoothDelaySamples d))),
        leftBuffer := (leftBuffer d)[nat (currentIndex d) :=
          l + delayFeedback p * spec_delayed S p (leftBuffer d) d],
        rightBuffer :=
          (case r of
             None \<Rightarrow> rightBuffer d
           | Some x \<Rightarrow> (rightBuffer d)[nat (currentIndex d) :=
               x + delayFeedback p * spec_delayed S p (rightBuffer d) d]),
        currentIndex := (currentIndex d + 1) mod bufferSize d \<rparr>"

fun spec_delayState ::
  "'s Smoothed_ops \<Rightarrow> MyParameters \<Rightarrow> real list \<Rightarrow> real list option \<Rightarrow> nat \<Rightarrow> 's MyDelay \<Rightarrow> 's MyDelay" where
  "spec_delayState S p inL inR 0 d = d"
| "spec_delayState S p inL inR (Suc k) d =
     spec_delayStep S p (inL ! k) (map_option (\<lambda>r. r ! k) inR) (spec_delayState S p inL inR k d)"

text \<open>
  The same for the ping-pong delay on a stereo block: the original sample is the
  average of the two inputs, the left line is read at the smoothed distance and the
  right line at twice that distance, and the right line is fed back with half the
  feedback.
\<close>

definition spec_ppDistance :: "'s Smoothed_ops \<Rightarrow> MyParameters \<Rightarrow> 's MyPingPongDelay \<Rightarrow> real" where
  "spec_ppDistance S p d =
     fst (sv_getNextValue S
            (sv_setTargetValue S (delayTime p * pp_sampleRate d) (smoothDelayInSamples d)))"

definition spec_ppLeftDelayed :: "'s Smoothed_ops \<Rightarrow> MyParameters \<Rightarrow> 's MyPingPongDelay \<Rightarrow> real" where
  "spec_ppLeftDelayed S p d =
     spec_fractionalRead (leftDelayBuffer d) (pp_currentIndex d) (pp_bufferSize d)
       (spec_ppDistance S p d)"

definition spec_ppRightDelayed :: "'s Smoothed_ops \<Rightarrow> MyParameters \<Rightarrow> 's MyPingPongDelay \<Rightarrow> real" where
  "spec_ppRightDelayed S p d =
     spec_fractionalRead (rightDelayBuffer d) (pp_currentIndex d) (pp_bufferSize d)
       (2 * spec_ppDistance S p d)"

definition spec_ppStep ::
  "'s Smoothed_ops \<Rightarrow> MyParameters \<Rightarrow> real \<Rightarrow> real \<Rightarrow> 's MyPingPongDelay \<Rightarrow> 's MyPingPongDelay" where
  "spec_ppStep S p l r d =
     d\<lparr> smoothDelayInSamples :=
          snd (sv_getNextValue S
                 (sv_setTargetValue S (delayTime p * pp_sampleRate d) (smoothDelayInSamples d))),
        smoothFrequency := sv_setTargetValue S (1 / (2 * delayTime p)) (smoothFrequency d),
        leftDelayBuffer := (leftDelayBuffer d)[nat (pp_currentIndex d) :=
          (l + r) / 2 + delayFeedback p * spec_ppLeftDelayed S p d],
        rightDelayBuffer := (rightDelayBuffer d)[nat (pp_currentIndex d) :=
          (l + r) / 2 + delayFeedback p / 2 * spec_ppRightDelayed S p d],
        pp_currentIndex := (pp_currentIndex d + 1) mod pp_bufferSize d \<rparr>"

fun spec_ppState ::
  "'s Smoothed_ops \<Rightarrow> MyParameters \<Rightarrow> real list \<Rightarrow> real list \<Rightarrow> nat \<Rightarrow> 's MyPingPongDelay \<Rightarrow>
   's MyPingPongDelay" where
  "spec_ppState S p inL inR 0 d = d"
| "spec_ppState S p inL inR (Suc k) d =
     spec_ppStep S p (inL ! k) (inR ! k) (spec_ppState S p inL inR k d)"

text \<open>
  The voice after one iteration of the loop of \<^verbatim>\<open>renderNextBlock\<close>, and after \<open>k\<close>
  iterations: the signal chain has advanced by one sample, and the note has been
  cleared if the voice was ending and the amplifier closed.
\<close>

definition voice_afterSample ::
  "('o, 'f, 'e, 'r, 'i) collaborators \<Rightarrow> MyParameters \<Rightarrow> real \<Rightarrow>
   ('o, 'f, 'e, 'r, 'i) MySynthVoice \<Rightarrow> ('o, 'f, 'e, 'r, 'i) MySynthVoice" where
  "voice_afterSample X p sr v =
     (let v1 = snd (voice_nextSample X p sr v)
      in if ending v1 \<and> isClosed (amp v1)
         then (clearCurrentNote v1)\<lparr> playing := False, ending := False \<rparr>
         else v1)"

fun voice_afterSamples ::
  "('o, 'f, 'e, 'r, 'i) collaborators \<Rightarrow> MyParameters \<Rightarrow> real \<Rightarrow> nat \<Rightarrow>
   ('o, 'f, 'e, 'r, 'i) MySynthVoice \<Rightarrow> ('o, 'f, 'e, 'r, 'i) MySynthVoice" where
  "voice_afterSamples X p sr 0 v = v"
| "voice_afterSamples X p sr (Suc k) v = voice_afterSample X p sr (voice_afterSamples X p sr k v)"

text \<open>
  The voice as the loop of \<^verbatim>\<open>renderNextBlock\<close> finds it: at the start of a block the
  noise generator and the amplifier have taken the parameters of the block, and
  before sample \<open>j\<close> of the block \<open>j\<close> iterations have passed.
\<close>

definition voice_blockStart ::
  "('o, 'f, 'e, 'r, 'i) collaborators \<Rightarrow> MyParameters \<Rightarrow>
   ('o, 'f, 'e, 'r, 'i) MySynthVoice \<Rightarrow> ('o, 'f, 'e, 'r, 'i) MySynthVoice" where
  "voice_blockStart X p v =
     v\<lparr> noiseGen := noise_updateParams (adsrOps X) (iirOps X) p (currentSampleRate v) (noiseGen v),
        amp := amp_updateParams (adsrOps X) p (currentSampleRate v) (amp v) \<rparr>"

definition voice_inBlock ::
  "('o, 'f, 'e, 'r, 'i) collaborators \<Rightarrow> MyParameters \<Rightarrow>
   ('o, 'f, 'e, 'r, 'i) MySynthVoice \<Rightarrow> nat \<Rightarrow> ('o, 'f, 'e, 'r, 'i) MySynthVoice" where
  "voice_inBlock X p v j =
     voice_afterSamples X p (currentSampleRate v) j (voice_blockStart X p v)"

section \<open>Theorems\<close>

subsection \<open>Auxiliary lemmas on the delay lines\<close>

lemma bindF_Inr [simp]: "bindF (Inr x) f = f x"
  by (simp add: bindF_def)

lemma bindF_Inl [simp]: "bindF (Inl e) f = Inl e"
  by (simp add: bindF_def)

lemma bindF_eq_Inr: "bindF m f = Inr y \<longleftrightarrow> (\<exists>x. m = Inr x \<and> f x = Inr y)"
  by (cases m) simp_all

lemma smod_nonneg: "0 \<le> a \<Longrightarrow> 0 < b \<Longrightarrow> (a::int) smod b = a mod b"
  by (simp add: signed_modulo_int_def sgn_if)

lemma backIndex_ok:
  assumes "0 < sz" "sz < 2 ^ 30" "0 \<le> a" "a < sz" "0 \<le> b" "b \<le> sz"
  shows "backIndex a b sz = Inr ((a - b + sz) mod sz)"
proof -
  have "int32 (a - b)" "int32 (a - b + sz)"
    using assms by (simp_all add: int32_def)
  moreover have "(a - b + sz) smod sz = (a - b + sz) mod sz"
    using assms by (intro smod_nonneg) simp_all
  ultimately show ?thesis
    using assms by (simp add: backIndex_def)
qed

lemma int32_small: "0 \<le> k \<Longrightarrow> k < sz \<Longrightarrow> sz < 2 ^ 30 \<Longrightarrow> int32 k"
  by (simp add: int32_def)

lemma floorToInt_ok:
  assumes "0 \<le> x" "x < real_of_int sz" "sz < 2 ^ 30"
  shows "floorToInt x = Inr \<lfloor>x\<rfloor>" "0 \<le> \<lfloor>x\<rfloor>" "\<lfloor>x\<rfloor> < sz"
proof -
  show a: "0 \<le> \<lfloor>x\<rfloor>" using assms by simp
  show b: "\<lfloor>x\<rfloor> < sz" using assms by (simp add: floor_less_iff)
  have "int32 \<lfloor>x\<rfloor>"
    using a b assms(3) by (rule int32_small)
  then show "floorToInt x = Inr \<lfloor>x\<rfloor>"
    by (simp add: floorToInt_def)
qed

lemma applyDelay_ok:
  assumes sz: "0 < bufferSize d" "bufferSize d < 2 ^ 30"
    and len: "length buffer = nat (bufferSize d)"
    and cur: "0 \<le> currentIndex d" "currentIndex d < bufferSize d"
    and i: "i < length channel"
    and dly: "0 \<le> dly" "dly < real_of_int (bufferSize d)"
  shows "applyDelay p d channel i buffer dly =
           Inr (channel[i := delayDryLevel p * channel ! i
                            + delayWetLevel p * spec_fractionalRead buffer (currentIndex d) (bufferSize d) dly],
                buffer[nat (currentIndex d) := channel ! i
                            + delayFeedback p * spec_fractionalRead buffer (currentIndex d) (bufferSize d) dly])"
proof -
  let ?sz = "bufferSize d"
  let ?k = "\<lfloor>dly\<rfloor>"
  let ?r = "(currentIndex d - ?k + ?sz) mod ?sz"
  let ?l = "(?r - 1 + ?sz) mod ?sz"
  note fl = floorToInt_ok [OF dly sz(2)]
  have r: "backIndex (currentIndex d) ?k ?sz = Inr ?r"
    using sz cur fl by (intro backIndex_ok) simp_all
  have rb: "0 \<le> ?r" "?r < ?sz" using sz by simp_all
  have l: "backIndex ?r 1 ?sz = Inr ?l"
    using sz rb by (intro backIndex_ok) simp_all
  have lb: "0 \<le> ?l" "?l < ?sz" using sz by simp_all
  have rd: "readAt buffer ?r = Inr (buffer ! nat ?r)" "readAt buffer ?l = Inr (buffer ! nat ?l)"
    using rb lb len by (simp_all add: readAt_def)
  have ch: "readAt channel (int i) = Inr (channel ! i)"
    using i by (simp add: readAt_def)
  have wr: "\<And>v. writeAt buffer (currentIndex d) v = Inr (buffer[nat (currentIndex d) := v])"
    using cur len by (simp add: writeAt_def)
  show ?thesis
    using ch fl(1) r l rd wr
    by (simp add: applyDelay_def spec_fractionalRead_def Let_def)
qed


lemma MyDelay_sample_ok:
  assumes rdy: "delayReady d"
    and nxt: "sv_getNextValue S (sv_setTargetValue S (delayTime p * sampleRate d) (smoothDelaySamples d))
                = (dly, sm')"
    and dly: "0 \<le> dly" "dly < real_of_int (bufferSize d)"
    and i: "i < length left" "case right of None \<Rightarrow> True | Some r \<Rightarrow> i < length r"
  shows "MyDelay_sample S p i left right d =
     Inr (left[i := delayDryLevel p * left ! i
                     + delayWetLevel p * spec_fractionalRead (leftBuffer d) (currentIndex d) (bufferSize d) dly],
          map_option (\<lambda>r. r[i := delayDryLevel p * r ! i
                     + delayWetLevel p * spec_fractionalRead (rightBuffer d) (currentIndex d) (bufferSize d) dly])
            right,
          d\<lparr> smoothDelaySamples := sm',
             leftBuffer := (leftBuffer d)[nat (currentIndex d) := left ! i
                     + delayFeedback p * spec_fractionalRead (leftBuffer d) (currentIndex d) (bufferSize d) dly],
             rightBuffer :=
               (case right of
                  None \<Rightarrow> rightBuffer d
                | Some r \<Rightarrow> (rightBuffer d)[nat (currentIndex d) := r ! i
                     + delayFeedback p * spec_fractionalRead (rightBuffer d) (currentIndex d) (bufferSize d) dly]),
             currentIndex := (currentIndex d + 1) mod bufferSize d \<rparr>)"
proof -
  from rdy have sz: "0 < bufferSize d" "bufferSize d < 2 ^ 30"
    and len: "length (leftBuffer d) = nat (bufferSize d)" "length (rightBuffer d) = nat (bufferSize d)"
    and cur: "0 \<le> currentIndex d" "currentIndex d < bufferSize d"
    by (simp_all add: delayReady_def)
  have inc: "(currentIndex d + 1) smod bufferSize d = (currentIndex d + 1) mod bufferSize d"
    using sz cur by (intro smod_nonneg) simp_all
  have L: "applyDelay p d2 left i (leftBuffer d) dly =
        Inr (left[i := delayDryLevel p * left ! i
                     + delayWetLevel p * spec_fractionalRead (leftBuffer d) (currentIndex d) (bufferSize d) dly],
             (leftBuffer d)[nat (currentIndex d) := left ! i
                     + delayFeedback p * spec_fractionalRead (leftBuffer d) (currentIndex d) (bufferSize d) dly])"
    if "currentIndex d2 = currentIndex d" "bufferSize d2 = bufferSize d" for d2 :: "'s MyDelay"
    using applyDelay_ok [of d2 "leftBuffer d" i left dly p] that sz len cur i(1) dly by simp
  show ?thesis
  proof (cases right)
    case None
    then show ?thesis
      using nxt inc
      by (simp add: MyDelay_sample_def updateParams_def incrementCurrentIndex_def Let_def L)
  next
    case (Some r)
    with i(2) have ir: "i < length r" by simp
    have R: "applyDelay p d2 r i (rightBuffer d) dly =
        Inr (r[i := delayDryLevel p * r ! i
                     + delayWetLevel p * spec_fractionalRead (rightBuffer d) (currentIndex d) (bufferSize d) dly],
             (rightBuffer d)[nat (currentIndex d) := r ! i
                     + delayFeedback p * spec_fractionalRead (rightBuffer d) (currentIndex d) (bufferSize d) dly])"
      if "currentIndex d2 = currentIndex d" "bufferSize d2 = bufferSize d" for d2 :: "'s MyDelay"
      using applyDelay_ok [of d2 "rightBuffer d" i r dly p] that sz len cur ir dly by simp
    from Some show ?thesis
      using nxt inc
      by (simp add: MyDelay_sample_def updateParams_def incrementCurrentIndex_def Let_def L R)
  qed
qed

lemma clearLoop_ok:
  assumes "i + n \<le> length l" "i + n \<le> length r"
  shows "\<exists>l' r'. clearLoop i n l r = Inr (l', r')
           \<and> length l' = length l \<and> length r' = length r
           \<and> (\<forall>k<length l. l' ! k = (if i \<le> k \<and> k < i + n then 0 else l ! k))
           \<and> (\<forall>k<length r. r' ! k = (if i \<le> k \<and> k < i + n then 0 else r ! k))"
  using assms
proof (induction n arbitrary: i l r)
  case 0
  then show ?case by auto
next
  case (Suc n)
  have w: "writeAt l (int i) 0 = Inr (l[i := 0])" "writeAt r (int i) 0 = Inr (r[i := 0])"
    using Suc.prems by (simp_all add: writeAt_def)
  have "Suc i + n \<le> length (l[i := 0])" "Suc i + n \<le> length (r[i := 0])"
    using Suc.prems by simp_all
  from Suc.IH [OF this]
  obtain l' r' where fin: "clearLoop (Suc i) n (l[i := 0]) (r[i := 0]) = Inr (l', r')"
    "length l' = length l" "length r' = length r"
    "\<forall>k<length l. l' ! k = (if Suc i \<le> k \<and> k < Suc i + n then 0 else l[i := 0] ! k)"
    "\<forall>k<length r. r' ! k = (if Suc i \<le> k \<and> k < Suc i + n then 0 else r[i := 0] ! k)"
    by auto
  have "\<forall>k<length l. l' ! k = (if i \<le> k \<and> k < i + Suc n then 0 else l ! k)"
    using fin(4) by (auto simp: nth_list_update)
  moreover have "\<forall>k<length r. r' ! k = (if i \<le> k \<and> k < i + Suc n then 0 else r ! k)"
    using fin(5) by (auto simp: nth_list_update)
  ultimately show ?case
    using w fin(1,2,3) by simp
qed

lemma clearLoop_all:
  assumes "length l = n" "length r = n"
  shows "clearLoop 0 n l r = Inr (replicate n 0, replicate n 0)"
proof -
  from clearLoop_ok [of 0 n l r] assms
  obtain l' r' where res: "clearLoop 0 n l r = Inr (l', r')"
    "length l' = n" "length r' = n"
    "\<forall>k<n. l' ! k = 0" "\<forall>k<n. r' ! k = 0"
    by auto
  have "l' = replicate n 0" "r' = replicate n 0"
    using res by (simp_all add: list_eq_iff_nth_eq)
  then show ?thesis using res(1) by simp
qed

lemma clearBuffers_zero:
  assumes "length (leftBuffer d) = nat (bufferSize d)" "length (rightBuffer d) = nat (bufferSize d)"
  shows "clearBuffers d = Inr (cleared d)"
  using assms by (simp add: clearBuffers_def cleared_def clearLoop_all)

lemma pp_clearBuffers_zero:
  assumes "length (leftDelayBuffer d) = nat (pp_bufferSize d)"
    "length (rightDelayBuffer d) = nat (pp_bufferSize d)"
  shows "pp_clearBuffers d = Inr (pp_cleared d)"
  using assms by (simp add: pp_clearBuffers_def pp_cleared_def clearLoop_all)

lemma prepareToPlay_ready:
  assumes "0 \<le> sr" "sr \<le> 2 ^ 28"
  shows "\<exists>d'. prepareToPlay S sr d = Inr d' \<and> delayReady d' \<and> emptyBuffers d'
           \<and> bufferSize d' = \<lceil>2 * sr\<rceil> + 1 \<and> sampleRate d' = sr"
proof -
  define k where "k = \<lceil>2 * sr\<rceil>"
  have lo: "0 \<le> k" unfolding k_def using assms(1) by simp
  have "2 * sr \<le> real_of_int (2 ^ 29)" using assms(2) by simp
  then have hi: "k \<le> 2 ^ 29" unfolding k_def by (simp only: ceiling_le_iff)
  have n: "0 < k + 1" "k + 1 < 2 ^ 30" "\<not> k + 1 < 0" using lo hi by simp_all
  then have i32: "int32 (k + 1)" by (simp add: int32_def)
  let ?d0 = "d\<lparr> sampleRate := sr, bufferSize := k + 1, leftBuffer := replicate (nat (k + 1)) 0,
                  rightBuffer := replicate (nat (k + 1)) 0 \<rparr>"
  have c: "clearBuffers ?d0 = Inr (cleared ?d0)"
    by (rule clearBuffers_zero) simp_all
  have r: "resetBuffers (d\<lparr> sampleRate := sr \<rparr>) = Inr (cleared ?d0)"
    unfolding resetBuffers_def Let_def using n(3) i32 c
    by (simp add: k_def [symmetric])
  have rdy: "delayReady (cleared ?d0)"
    using n(1,2) by (simp add: cleared_def delayReady_def)
  show ?thesis
    using rdy by (simp add: prepareToPlay_def r cleared_def delayReady_def k_def)
qed

lemma MyDelay_loop_ok:
  assumes "delayReady d"
    and "delaysWithin S (delayTime p * sampleRate d) (real_of_int (bufferSize d)) n (smoothDelaySamples d)"
    and "i + n \<le> length left"
    and "case right of None \<Rightarrow> True | Some r \<Rightarrow> i + n \<le> length r"
  shows "\<exists>left' right' d'.
           MyDelay_loop S p i n left right d = Inr (left', right', d')
           \<and> delayReady d' \<and> bufferSize d' = bufferSize d \<and> sampleRate d' = sampleRate d
           \<and> emptyBuffers d' = emptyBuffers d
           \<and> currentIndex d' = (currentIndex d + int n) mod bufferSize d
           \<and> length left' = length left
           \<and> map_option length right' = map_option length right"
  using assms
proof (induction n arbitrary: i left right d)
  case 0
  then show ?case by (simp add: delayReady_def)
next
  case (Suc n)
  obtain v sm' where nxt:
    "sv_getNextValue S (sv_setTargetValue S (delayTime p * sampleRate d) (smoothDelaySamples d)) = (v, sm')"
    by (cases "sv_getNextValue S (sv_setTargetValue S (delayTime p * sampleRate d) (smoothDelaySamples d))")
  with Suc.prems(2) have v: "0 \<le> v" "v < real_of_int (bufferSize d)"
    and rest: "delaysWithin S (delayTime p * sampleRate d) (real_of_int (bufferSize d)) n sm'"
    by simp_all
  have il: "i < length left" using Suc.prems(3) by simp
  have ir: "case right of None \<Rightarrow> True | Some r \<Rightarrow> i < length r"
    using Suc.prems(4) by (cases right) simp_all
  note step = MyDelay_sample_ok [OF Suc.prems(1) nxt v il ir]
  obtain l1 r1 d1 where s1: "MyDelay_sample S p i left right d = Inr (l1, r1, d1)"
    and l1: "length l1 = length left"
    and r1: "map_option length r1 = map_option length right"
    and d1: "bufferSize d1 = bufferSize d" "sampleRate d1 = sampleRate d"
      "emptyBuffers d1 = emptyBuffers d" "smoothDelaySamples d1 = sm'"
      "currentIndex d1 = (currentIndex d + 1) mod bufferSize d"
      "length (leftBuffer d1) = length (leftBuffer d)"
      "length (rightBuffer d1) = length (rightBuffer d)"
    using step by (cases right) simp_all
  have rdy1: "delayReady d1"
    using Suc.prems(1) d1 by (simp add: delayReady_def)
  have w1: "delaysWithin S (delayTime p * sampleRate d1) (real_of_int (bufferSize d1)) n (smoothDelaySamples d1)"
    using rest d1 by simp
  have b1: "Suc i + n \<le> length l1" using Suc.prems(3) l1 by simp
  have b2: "case r1 of None \<Rightarrow> True | Some r \<Rightarrow> Suc i + n \<le> length r"
    using Suc.prems(4) r1 by (cases right; cases r1) simp_all
  from Suc.IH [OF rdy1 w1 b1 b2]
  obtain left' right' d' where fin: "MyDelay_loop S p (Suc i) n l1 r1 d1 = Inr (left', right', d')"
    "delayReady d'" "bufferSize d' = bufferSize d1" "sampleRate d' = sampleRate d1"
    "emptyBuffers d' = emptyBuffers d1"
    "currentIndex d' = (currentIndex d1 + int n) mod bufferSize d1"
    "length left' = length l1" "map_option length right' = map_option length r1"
    by blast
  have idx: "currentIndex d' = (currentIndex d + int (Suc n)) mod bufferSize d"
    using fin(6) d1 by (simp add: mod_add_left_eq add.assoc)
  show ?case
    using s1 fin idx l1 r1 d1 by simp
qed


lemma spec_delayStep_ready:
  assumes "delayReady d"
  shows "delayReady (spec_delayStep S p l r d)"
  using assms by (cases r) (simp_all add: delayReady_def spec_delayStep_def)

lemma MyDelay_sample_spec:
  assumes rdy: "delayReady d"
    and dly: "0 \<le> spec_delayDistance S p d" "spec_delayDistance S p d < real_of_int (bufferSize d)"
    and i: "i < length left" "case right of None \<Rightarrow> True | Some r \<Rightarrow> i < length r"
  shows "MyDelay_sample S p i left right d =
     Inr (left[i := delayDryLevel p * left ! i + delayWetLevel p * spec_delayed S p (leftBuffer d) d],
          map_option (\<lambda>r. r[i := delayDryLevel p * r ! i
                                  + delayWetLevel p * spec_delayed S p (rightBuffer d) d]) right,
          spec_delayStep S p (left ! i) (map_option (\<lambda>r. r ! i) right) d)"
proof -
  obtain v sm' where nxt:
    "sv_getNextValue S (sv_setTargetValue S (delayTime p * sampleRate d) (smoothDelaySamples d)) = (v, sm')"
    by (cases "sv_getNextValue S (sv_setTargetValue S (delayTime p * sampleRate d) (smoothDelaySamples d))")
  then have v: "spec_delayDistance S p d = v"
    by (simp add: spec_delayDistance_def)
  have b: "0 \<le> v" "v < real_of_int (bufferSize d)"
    using dly v by simp_all
  show ?thesis
    unfolding MyDelay_sample_ok [OF rdy nxt b i]
    using nxt v by (cases right) (simp_all add: spec_delayStep_def spec_delayed_def)
qed

lemma delaysWithin_Suc:
  assumes "delaysWithin S (delayTime p * sampleRate d) (real_of_int (bufferSize d)) (Suc n)
             (smoothDelaySamples d)"
  shows "0 \<le> spec_delayDistance S p d" "spec_delayDistance S p d < real_of_int (bufferSize d)"
    "delaysWithin S (delayTime p * sampleRate (spec_delayStep S p l r d))
       (real_of_int (bufferSize (spec_delayStep S p l r d))) n
       (smoothDelaySamples (spec_delayStep S p l r d))"
  using assms
  by (simp_all add: spec_delayDistance_def spec_delayStep_def split: prod.splits)

lemma MyDelay_loop_spec:
  assumes "delayReady d"
    and "delaysWithin S (delayTime p * sampleRate d) (real_of_int (bufferSize d)) n (smoothDelaySamples d)"
    and "i + n \<le> length left"
    and "rel_option (\<lambda>r rin. i + n \<le> length r \<and> (\<forall>k. i \<le> k \<longrightarrow> r ! k = rin ! k)) right inR"
    and "\<forall>k. i \<le> k \<longrightarrow> left ! k = inL ! k"
    and "d = spec_delayState S p inL inR i d0"
  shows "\<exists>left' right' d'.
           MyDelay_loop S p i n left right d = Inr (left', right', d')
           \<and> d' = spec_delayState S p inL inR (i + n) d0
           \<and> delayReady d'
           \<and> length left' = length left
           \<and> (\<forall>k. left' ! k =
                 (if i \<le> k \<and> k < i + n
                  then delayDryLevel p * inL ! k
                       + delayWetLevel p * spec_delayed S p
                           (leftBuffer (spec_delayState S p inL inR k d0))
                           (spec_delayState S p inL inR k d0)
                  else left ! k))
           \<and> rel_option (\<lambda>r' r. length r' = length r \<and>
                 (\<forall>k. r' ! k =
                   (if i \<le> k \<and> k < i + n
                    then delayDryLevel p * r ! k
                         + delayWetLevel p * spec_delayed S p
                             (rightBuffer (spec_delayState S p inL inR k d0))
                             (spec_delayState S p inL inR k d0)
                    else r ! k))) right' right"
  using assms
proof (induction n arbitrary: i left right d)
  case 0
  then show ?case
    by (cases right) (simp_all add: option.rel_refl)
next
  case (Suc n)
  let ?D = "\<lambda>k. spec_delayState S p inL inR k d0"
  note w = delaysWithin_Suc [OF Suc.prems(2)]
  have il: "i < length left" using Suc.prems(3) by simp
  have ir: "case right of None \<Rightarrow> True | Some r \<Rightarrow> i < length r"
    using Suc.prems(4) by (cases right; cases inR) simp_all
  have inl: "left ! i = inL ! i" using Suc.prems(5) by simp
  have inr: "map_option (\<lambda>r. r ! i) right = map_option (\<lambda>r. r ! i) inR"
    using Suc.prems(4) by (cases right; cases inR) simp_all
  define l1 where "l1 = left[i := delayDryLevel p * left ! i
                                  + delayWetLevel p * spec_delayed S p (leftBuffer d) d]"
  define r1 where "r1 = map_option (\<lambda>r. r[i := delayDryLevel p * r ! i
                                  + delayWetLevel p * spec_delayed S p (rightBuffer d) d]) right"
  define d1 where "d1 = spec_delayStep S p (left ! i) (map_option (\<lambda>r. r ! i) right) d"
  have s1: "MyDelay_sample S p i left right d = Inr (l1, r1, d1)"
    unfolding l1_def r1_def d1_def
    by (rule MyDelay_sample_spec [OF Suc.prems(1) w(1,2) il ir])
  have d1D: "d1 = ?D (Suc i)"
    using Suc.prems(6) inl inr by (simp add: d1_def)
  have rdy1: "delayReady d1"
    unfolding d1_def by (rule spec_delayStep_ready [OF Suc.prems(1)])
  have w1: "delaysWithin S (delayTime p * sampleRate d1) (real_of_int (bufferSize d1)) n
              (smoothDelaySamples d1)"
    unfolding d1_def by (rule w(3))
  have b1: "Suc i + n \<le> length l1" using Suc.prems(3) by (simp add: l1_def)
  have b2: "rel_option (\<lambda>r rin. Suc i + n \<le> length r \<and> (\<forall>k. Suc i \<le> k \<longrightarrow> r ! k = rin ! k)) r1 inR"
    using Suc.prems(4) by (cases right; cases inR) (simp_all add: r1_def)
  have b3: "\<forall>k. Suc i \<le> k \<longrightarrow> l1 ! k = inL ! k"
    using Suc.prems(5) by (simp add: l1_def)
  from Suc.IH [OF rdy1 w1 b1 b2 b3 d1D]
  obtain left' right' d' where fin:
    "MyDelay_loop S p (Suc i) n l1 r1 d1 = Inr (left', right', d')"
    "d' = ?D (Suc i + n)" "delayReady d'" "length left' = length l1"
    "\<forall>k. left' ! k =
        (if Suc i \<le> k \<and> k < Suc i + n
         then delayDryLevel p * inL ! k + delayWetLevel p * spec_delayed S p (leftBuffer (?D k)) (?D k)
         else l1 ! k)"
    "rel_option (\<lambda>r' r. length r' = length r \<and>
        (\<forall>k. r' ! k =
          (if Suc i \<le> k \<and> k < Suc i + n
           then delayDryLevel p * r ! k + delayWetLevel p * spec_delayed S p (rightBuffer (?D k)) (?D k)
           else r ! k))) right' r1"
    by blast
  have loop: "MyDelay_loop S p i (Suc n) left right d = Inr (left', right', d')"
    using s1 fin(1) by simp
  have L: "\<forall>k. left' ! k =
        (if i \<le> k \<and> k < i + Suc n
         then delayDryLevel p * inL ! k + delayWetLevel p * spec_delayed S p (leftBuffer (?D k)) (?D k)
         else left ! k)"
  proof
    fix k
    show "left' ! k =
        (if i \<le> k \<and> k < i + Suc n
         then delayDryLevel p * inL ! k + delayWetLevel p * spec_delayed S p (leftBuffer (?D k)) (?D k)
         else left ! k)"
    proof (cases "k = i")
      case True
      then show ?thesis
        using fin(5) il inl Suc.prems(6) by (simp add: l1_def)
    next
      case False
      then show ?thesis
        using fin(5) by (auto simp: l1_def)
    qed
  qed
  have R: "rel_option (\<lambda>r' r. length r' = length r \<and>
        (\<forall>k. r' ! k =
          (if i \<le> k \<and> k < i + Suc n
           then delayDryLevel p * r ! k + delayWetLevel p * spec_delayed S p (rightBuffer (?D k)) (?D k)
           else r ! k))) right' right"
  proof (cases right)
    case None
    then show ?thesis using fin(6) by (cases right') (simp_all add: r1_def)
  next
    case (Some r)
    then obtain r' where r': "right' = Some r'"
      using fin(6) by (cases right') (simp_all add: r1_def)
    let ?x = "delayDryLevel p * r ! i + delayWetLevel p * spec_delayed S p (rightBuffer d) d"
    have lr: "length r' = length r"
      and nr: "\<forall>k. r' ! k =
          (if Suc i \<le> k \<and> k < Suc i + n
           then delayDryLevel p * r[i := ?x] ! k
                + delayWetLevel p * spec_delayed S p (rightBuffer (?D k)) (?D k)
           else r[i := ?x] ! k)"
      using fin(6) Some r' by (simp_all add: r1_def)
    have ri: "i < length r" using ir Some by simp
    have "r' ! k =
          (if i \<le> k \<and> k < i + Suc n
           then delayDryLevel p * r ! k + delayWetLevel p * spec_delayed S p (rightBuffer (?D k)) (?D k)
           else r ! k)" for k
    proof (cases "k = i")
      case True
      then show ?thesis
        using nr ri Suc.prems(6) by simp
    next
      case False
      then show ?thesis
        using nr by auto
    qed
    then show ?thesis
      using Some r' lr by simp
  qed
  show ?case
    using loop fin(2,3,4) L R by (simp add: l1_def)
qed

lemma MyDelay_apply_spec:
  assumes on: "delayOn p" and rdy: "delayReady d"
    and within: "delaysWithin S (delayTime p * sampleRate d) (real_of_int (bufferSize d)) (nat n)
                   (smoothDelaySamples d)"
    and len: "nat n \<le> length inL" "nat n \<le> length inR"
  shows "\<exists>outL outR d'.
           MyDelay_apply S p [inL, inR] n 2 d = Inr ([outL, outR], d')
           \<and> d' = spec_delayState S p inL (Some inR) (nat n) (d\<lparr> emptyBuffers := False \<rparr>)
           \<and> length outL = length inL \<and> length outR = length inR
           \<and> (\<forall>k. outL ! k =
                 (if k < nat n
                  then delayDryLevel p * inL ! k
                       + delayWetLevel p * spec_delayed S p
                           (leftBuffer (spec_delayState S p inL (Some inR) k (d\<lparr> emptyBuffers := False \<rparr>)))
                           (spec_delayState S p inL (Some inR) k (d\<lparr> emptyBuffers := False \<rparr>))
                  else inL ! k))
           \<and> (\<forall>k. outR ! k =
                 (if k < nat n
                  then delayDryLevel p * inR ! k
                       + delayWetLevel p * spec_delayed S p
                           (rightBuffer (spec_delayState S p inL (Some inR) k (d\<lparr> emptyBuffers := False \<rparr>)))
                           (spec_delayState S p inL (Some inR) k (d\<lparr> emptyBuffers := False \<rparr>))
                  else inR ! k))"
proof -
  let ?d0 = "d\<lparr> emptyBuffers := False \<rparr>"
  have rdy0: "delayReady ?d0"
    using rdy by (simp add: delayReady_def)
  have w0: "delaysWithin S (delayTime p * sampleRate ?d0) (real_of_int (bufferSize ?d0)) (nat n)
              (smoothDelaySamples ?d0)"
    using within by simp
  have l0: "0 + nat n \<le> length inL" using len by simp
  have r0: "rel_option (\<lambda>r rin. 0 + nat n \<le> length r \<and> (\<forall>k. 0 \<le> k \<longrightarrow> r ! k = rin ! k))
              (Some inR) (Some inR)"
    using len by simp
  have a0: "\<forall>k. 0 \<le> k \<longrightarrow> inL ! k = inL ! k" by simp
  have s0: "?d0 = spec_delayState S p inL (Some inR) 0 ?d0" by simp
  from MyDelay_loop_spec [OF rdy0 w0 l0 r0 a0 s0]
  obtain left' right' d' where loop:
    "MyDelay_loop S p 0 (nat n) inL (Some inR) ?d0 = Inr (left', right', d')"
    and d': "d' = spec_delayState S p inL (Some inR) (0 + nat n) ?d0"
    and ll: "length left' = length inL"
    and L: "\<forall>k. left' ! k =
                 (if 0 \<le> k \<and> k < 0 + nat n
                  then delayDryLevel p * inL ! k
                       + delayWetLevel p * spec_delayed S p
                           (leftBuffer (spec_delayState S p inL (Some inR) k ?d0))
                           (spec_delayState S p inL (Some inR) k ?d0)
                  else inL ! k)"
    and R: "rel_option (\<lambda>r' r. length r' = length r \<and>
                 (\<forall>k. r' ! k =
                   (if 0 \<le> k \<and> k < 0 + nat n
                    then delayDryLevel p * r ! k
                         + delayWetLevel p * spec_delayed S p
                             (rightBuffer (spec_delayState S p inL (Some inR) k ?d0))
                             (spec_delayState S p inL (Some inR) k ?d0)
                    else r ! k))) right' (Some inR)"
    by blast
  from R obtain outR where o: "right' = Some outR" by (cases right') simp_all
  have ap: "MyDelay_apply S p [inL, inR] n 2 d = Inr ([left', outR], d')"
    using on loop o by (simp add: MyDelay_apply_def)
  show ?thesis
    using ap d' ll L R o by simp
qed

lemma MyDelay_apply_spec_mono:
  assumes on: "delayOn p" and rdy: "delayReady d"
    and within: "delaysWithin S (delayTime p * sampleRate d) (real_of_int (bufferSize d)) (nat n)
                   (smoothDelaySamples d)"
    and len: "nat n \<le> length inL"
  shows "\<exists>outL d'.
           MyDelay_apply S p [inL] n 1 d = Inr ([outL], d')
           \<and> d' = spec_delayState S p inL None (nat n) (d\<lparr> emptyBuffers := False \<rparr>)
           \<and> length outL = length inL
           \<and> (\<forall>k. outL ! k =
                 (if k < nat n
                  then delayDryLevel p * inL ! k
                       + delayWetLevel p * spec_delayed S p
                           (leftBuffer (spec_delayState S p inL None k (d\<lparr> emptyBuffers := False \<rparr>)))
                           (spec_delayState S p inL None k (d\<lparr> emptyBuffers := False \<rparr>))
                  else inL ! k))"
proof -
  let ?d0 = "d\<lparr> emptyBuffers := False \<rparr>"
  have rdy0: "delayReady ?d0"
    using rdy by (simp add: delayReady_def)
  have w0: "delaysWithin S (delayTime p * sampleRate ?d0) (real_of_int (bufferSize ?d0)) (nat n)
              (smoothDelaySamples ?d0)"
    using within by simp
  have l0: "0 + nat n \<le> length inL" using len by simp
  have r0: "rel_option (\<lambda>r rin. 0 + nat n \<le> length r \<and> (\<forall>k. 0 \<le> k \<longrightarrow> r ! k = rin ! k)) None None"
    by simp
  have a0: "\<forall>k. 0 \<le> k \<longrightarrow> inL ! k = inL ! k" by simp
  have s0: "?d0 = spec_delayState S p inL None 0 ?d0" by simp
  from MyDelay_loop_spec [OF rdy0 w0 l0 r0 a0 s0]
  obtain left' right' d' where loop:
    "MyDelay_loop S p 0 (nat n) inL None ?d0 = Inr (left', right', d')"
    and d': "d' = spec_delayState S p inL None (0 + nat n) ?d0"
    and ll: "length left' = length inL"
    and L: "\<forall>k. left' ! k =
                 (if 0 \<le> k \<and> k < 0 + nat n
                  then delayDryLevel p * inL ! k
                       + delayWetLevel p * spec_delayed S p
                           (leftBuffer (spec_delayState S p inL None k ?d0))
                           (spec_delayState S p inL None k ?d0)
                  else inL ! k)"
    and R: "rel_option (\<lambda>r' r. length r' = length r \<and>
                 (\<forall>k. r' ! k =
                   (if 0 \<le> k \<and> k < 0 + nat n
                    then delayDryLevel p * r ! k
                         + delayWetLevel p * spec_delayed S p
                             (rightBuffer (spec_delayState S p inL None k ?d0))
                             (spec_delayState S p inL None k ?d0)
                    else r ! k))) right' None"
    by blast
  from R have o: "right' = None" by (cases right') simp_all
  have ap: "MyDelay_apply S p [inL] n 1 d = Inr ([left'], d')"
    using on loop o by (simp add: MyDelay_apply_def)
  show ?thesis
    using ap d' ll L by simp
qed

lemma MyDelay_apply_ok:
  assumes on: "delayOn p" and rdy: "delayReady d"
    and within: "delaysWithin S (delayTime p * sampleRate d) (real_of_int (bufferSize d)) (nat n)
                   (smoothDelaySamples d)"
    and len: "nat n \<le> length ch0" "nat n \<le> length ch1"
  shows "\<exists>out0 out1 d'.
           MyDelay_apply S p [ch0, ch1] n 2 d = Inr ([out0, out1], d')
           \<and> delayReady d' \<and> \<not> emptyBuffers d'
           \<and> currentIndex d' = (currentIndex d + int (nat n)) mod bufferSize d"
proof -
  have rdy0: "delayReady (d\<lparr> emptyBuffers := False \<rparr>)"
    using rdy by (simp add: delayReady_def)
  have w0: "delaysWithin S (delayTime p * sampleRate (d\<lparr> emptyBuffers := False \<rparr>))
              (real_of_int (bufferSize (d\<lparr> emptyBuffers := False \<rparr>))) (nat n)
              (smoothDelaySamples (d\<lparr> emptyBuffers := False \<rparr>))"
    using within by simp
  have l0: "0 + nat n \<le> length ch0"
    "case Some ch1 of None \<Rightarrow> True | Some r \<Rightarrow> 0 + nat n \<le> length r"
    using len by simp_all
  from MyDelay_loop_ok [OF rdy0 w0 l0]
  obtain left' right' d' where loop:
    "MyDelay_loop S p 0 (nat n) ch0 (Some ch1) (d\<lparr> emptyBuffers := False \<rparr>) = Inr (left', right', d')"
    and d': "delayReady d'" "emptyBuffers d' = emptyBuffers (d\<lparr> emptyBuffers := False \<rparr>)"
      "currentIndex d' = (currentIndex (d\<lparr> emptyBuffers := False \<rparr>) + int (nat n))
          mod bufferSize (d\<lparr> emptyBuffers := False \<rparr>)"
    and r': "map_option length right' = map_option length (Some ch1)"
    by blast
  from r' obtain out1 where o1: "right' = Some out1" by (cases right') simp_all
  have "MyDelay_apply S p [ch0, ch1] n 2 d = Inr ([left', out1], d')"
    using on loop o1 by (simp add: MyDelay_apply_def)
  then show ?thesis
    using d' by auto
qed

lemma MyDelay_sample_flag:
  "MyDelay_sample S p i left right d = Inr (left', right', d') \<Longrightarrow> emptyBuffers d' = emptyBuffers d"
  by (cases right)
     (auto simp: MyDelay_sample_def updateParams_def incrementCurrentIndex_def Let_def bindF_eq_Inr
           split: prod.splits)

lemma MyDelay_loop_flag:
  "MyDelay_loop S p i n left right d = Inr (left', right', d') \<Longrightarrow> emptyBuffers d' = emptyBuffers d"
proof (induction n arbitrary: i left right d)
  case 0
  then show ?case by simp
next
  case (Suc n)
  then obtain l1 r1 d1 where "MyDelay_sample S p i left right d = Inr (l1, r1, d1)"
    "MyDelay_loop S p (Suc i) n l1 r1 d1 = Inr (left', right', d')"
    by (auto simp: bindF_eq_Inr)
  then show ?case
    using Suc.IH MyDelay_sample_flag by metis
qed

lemma MyDelay_apply_flag:
  assumes "delayOn p" "MyDelay_apply S p buffer n c d = Inr (b', d')"
  shows "\<not> emptyBuffers d'"
  using assms
  by (auto simp: MyDelay_apply_def Let_def bindF_eq_Inr split: if_splits dest!: MyDelay_loop_flag)

lemma pp_sample_flag:
  "MyPingPongDelay_sample fadd S p i left right d = Inr (left', right', d')
     \<Longrightarrow> pp_emptyBuffers d' = pp_emptyBuffers d"
  by (cases right)
     (auto simp: MyPingPongDelay_sample_def pp_updateParams_def pp_incrementCurrentIndex_def Let_def
           bindF_eq_Inr split: prod.splits)

lemma pp_loop_flag:
  "MyPingPongDelay_loop fadd S p i n left right d = Inr (left', right', d')
     \<Longrightarrow> pp_emptyBuffers d' = pp_emptyBuffers d"
proof (induction n arbitrary: i left right d)
  case 0
  then show ?case by simp
next
  case (Suc n)
  then obtain l1 r1 d1 where "MyPingPongDelay_sample fadd S p i left right d = Inr (l1, r1, d1)"
    "MyPingPongDelay_loop fadd S p (Suc i) n l1 r1 d1 = Inr (left', right', d')"
    by (auto simp: bindF_eq_Inr)
  then show ?case
    using Suc.IH pp_sample_flag by metis
qed

lemma pp_apply_flag:
  assumes "delayOn p" "MyPingPongDelay_apply fadd S p buffer n c d = Inr (b', d')"
  shows "\<not> pp_emptyBuffers d'"
  using assms
  by (auto simp: MyPingPongDelay_apply_def Let_def bindF_eq_Inr split: if_splits dest!: pp_loop_flag)

lemma getInterpolatedDelayedSample_ok:
  assumes sz: "0 < pp_bufferSize d" "pp_bufferSize d < 2 ^ 30"
    and len: "length buffer = nat (pp_bufferSize d)"
    and cur: "0 \<le> pp_currentIndex d" "pp_currentIndex d < pp_bufferSize d"
    and dly: "0 \<le> dly" "dly < real_of_int (pp_bufferSize d)"
  shows "getInterpolatedDelayedSample d buffer dly =
           Inr (spec_fractionalRead buffer (pp_currentIndex d) (pp_bufferSize d) dly)"
proof -
  let ?sz = "pp_bufferSize d"
  let ?k = "\<lfloor>dly\<rfloor>"
  let ?r = "(pp_currentIndex d - ?k + ?sz) mod ?sz"
  let ?l = "(?r - 1 + ?sz) mod ?sz"
  note fl = floorToInt_ok [OF dly sz(2)]
  have r: "backIndex (pp_currentIndex d) ?k ?sz = Inr ?r"
    using sz cur fl by (intro backIndex_ok) simp_all
  have rb: "0 \<le> ?r" "?r < ?sz" using sz by simp_all
  have l: "backIndex ?r 1 ?sz = Inr ?l"
    using sz rb by (intro backIndex_ok) simp_all
  have lb: "0 \<le> ?l" "?l < ?sz" using sz by simp_all
  have rd: "readAt buffer ?r = Inr (buffer ! nat ?r)" "readAt buffer ?l = Inr (buffer ! nat ?l)"
    using rb lb len by (simp_all add: readAt_def)
  show ?thesis
    using fl(1) r l rd
    by (simp add: getInterpolatedDelayedSample_def spec_fractionalRead_def Let_def)
qed

lemma pp_sample_ok:
  assumes rdy: "pp_delayReady d"
    and nxt: "sv_getNextValue S (sv_setTargetValue S (delayTime p * pp_sampleRate d) (smoothDelayInSamples d))
                = (dly, sm')"
    and dly: "0 \<le> dly" "dly < real_of_int (pp_bufferSize d) / 2"
    and i: "i < length left" "i < length r"
  shows "MyPingPongDelay_sample fadd S p i left (Some r) d =
     Inr (left[i := fadd (fadd (delayDryLevel p * left ! i)
                            (delayDepth p * (delayWetLevel p *
                               spec_fractionalRead (leftDelayBuffer d) (pp_currentIndex d)
                                 (pp_bufferSize d) dly)))
                      ((1 - delayDepth p) * (delayWetLevel p *
                         spec_fractionalRead (rightDelayBuffer d) (pp_currentIndex d)
                           (pp_bufferSize d) (2 * dly)))],
          Some (r[i := fadd (fadd (delayDryLevel p * r ! i)
                            (delayDepth p * (delayWetLevel p *
                               spec_fractionalRead (rightDelayBuffer d) (pp_currentIndex d)
                                 (pp_bufferSize d) (2 * dly))))
                      ((1 - delayDepth p) * (delayWetLevel p *
                         spec_fractionalRead (leftDelayBuffer d) (pp_currentIndex d)
                           (pp_bufferSize d) dly))]),
          d\<lparr> smoothDelayInSamples := sm',
             smoothFrequency := sv_setTargetValue S (1 / (2 * delayTime p)) (smoothFrequency d),
             leftDelayBuffer := (leftDelayBuffer d)[nat (pp_currentIndex d) :=
                 (left ! i + r ! i) / 2 + delayFeedback p *
                   spec_fractionalRead (leftDelayBuffer d) (pp_currentIndex d) (pp_bufferSize d) dly],
             rightDelayBuffer := (rightDelayBuffer d)[nat (pp_currentIndex d) :=
                 (left ! i + r ! i) / 2 + delayFeedback p / 2 *
                   spec_fractionalRead (rightDelayBuffer d) (pp_currentIndex d) (pp_bufferSize d) (2 * dly)],
             pp_currentIndex := (pp_currentIndex d + 1) mod pp_bufferSize d \<rparr>)"
proof -
  from rdy have sz: "0 < pp_bufferSize d" "pp_bufferSize d < 2 ^ 30"
    and len: "length (leftDelayBuffer d) = nat (pp_bufferSize d)"
      "length (rightDelayBuffer d) = nat (pp_bufferSize d)"
    and cur: "0 \<le> pp_currentIndex d" "pp_currentIndex d < pp_bufferSize d"
    by (simp_all add: pp_delayReady_def)
  have dl: "0 \<le> dly" "dly < real_of_int (pp_bufferSize d)"
    and dr: "0 \<le> 2 * dly" "2 * dly < real_of_int (pp_bufferSize d)"
    using dly sz(1) by simp_all
  have inc: "(pp_currentIndex d + 1) smod pp_bufferSize d = (pp_currentIndex d + 1) mod pp_bufferSize d"
    using sz cur by (intro smod_nonneg) simp_all
  have L: "getInterpolatedDelayedSample d2 (leftDelayBuffer d) dly =
        Inr (spec_fractionalRead (leftDelayBuffer d) (pp_currentIndex d) (pp_bufferSize d) dly)"
    if "pp_currentIndex d2 = pp_currentIndex d" "pp_bufferSize d2 = pp_bufferSize d"
    for d2 :: "'s MyPingPongDelay"
    using getInterpolatedDelayedSample_ok [of d2 "leftDelayBuffer d" dly] that sz len cur dl by simp
  have R: "getInterpolatedDelayedSample d2 (rightDelayBuffer d) (2 * dly) =
        Inr (spec_fractionalRead (rightDelayBuffer d) (pp_currentIndex d) (pp_bufferSize d) (2 * dly))"
    if "pp_currentIndex d2 = pp_currentIndex d" "pp_bufferSize d2 = pp_bufferSize d"
    for d2 :: "'s MyPingPongDelay"
    using getInterpolatedDelayedSample_ok [of d2 "rightDelayBuffer d" "2 * dly"] that sz len cur dr by simp
  have rd: "readAt left (int i) = Inr (left ! i)" "readAt r (int i) = Inr (r ! i)"
    using i by (simp_all add: readAt_def)
  have wr: "writeAt (leftDelayBuffer d) (pp_currentIndex d) v =
              Inr ((leftDelayBuffer d)[nat (pp_currentIndex d) := v])"
    "writeAt (rightDelayBuffer d) (pp_currentIndex d) v =
              Inr ((rightDelayBuffer d)[nat (pp_currentIndex d) := v])" for v
    using cur len by (simp_all add: writeAt_def)
  show ?thesis
    using nxt inc
    by (simp add: MyPingPongDelay_sample_def pp_updateParams_def pp_incrementCurrentIndex_def
        Let_def L R rd wr)
qed

lemma spec_ppStep_ready:
  assumes "pp_delayReady d"
  shows "pp_delayReady (spec_ppStep S p l r d)"
  using assms by (simp add: pp_delayReady_def spec_ppStep_def)

lemma pp_sample_spec:
  assumes rdy: "pp_delayReady d"
    and dly: "0 \<le> spec_ppDistance S p d" "spec_ppDistance S p d < real_of_int (pp_bufferSize d) / 2"
    and i: "i < length left" "i < length r"
  shows "MyPingPongDelay_sample fadd S p i left (Some r) d =
     Inr (left[i := fadd (fadd (delayDryLevel p * left ! i)
                            (delayDepth p * (delayWetLevel p * spec_ppLeftDelayed S p d)))
                      ((1 - delayDepth p) * (delayWetLevel p * spec_ppRightDelayed S p d))],
          Some (r[i := fadd (fadd (delayDryLevel p * r ! i)
                            (delayDepth p * (delayWetLevel p * spec_ppRightDelayed S p d)))
                      ((1 - delayDepth p) * (delayWetLevel p * spec_ppLeftDelayed S p d))]),
          spec_ppStep S p (left ! i) (r ! i) d)"
proof -
  obtain v sm' where nxt:
    "sv_getNextValue S (sv_setTargetValue S (delayTime p * pp_sampleRate d) (smoothDelayInSamples d))
       = (v, sm')"
    by (cases "sv_getNextValue S
          (sv_setTargetValue S (delayTime p * pp_sampleRate d) (smoothDelayInSamples d))")
  then have v: "spec_ppDistance S p d = v"
    by (simp add: spec_ppDistance_def)
  have b: "0 \<le> v" "v < real_of_int (pp_bufferSize d) / 2"
    using dly v by simp_all
  show ?thesis
    unfolding pp_sample_ok [OF rdy nxt b i]
    using nxt v by (simp add: spec_ppStep_def spec_ppLeftDelayed_def spec_ppRightDelayed_def)
qed

lemma pp_delaysWithin_Suc:
  assumes "delaysWithin S (delayTime p * pp_sampleRate d) (real_of_int (pp_bufferSize d) / 2) (Suc n)
             (smoothDelayInSamples d)"
  shows "0 \<le> spec_ppDistance S p d" "spec_ppDistance S p d < real_of_int (pp_bufferSize d) / 2"
    "delaysWithin S (delayTime p * pp_sampleRate (spec_ppStep S p l r d))
       (real_of_int (pp_bufferSize (spec_ppStep S p l r d)) / 2) n
       (smoothDelayInSamples (spec_ppStep S p l r d))"
  using assms
  by (simp_all add: spec_ppDistance_def spec_ppStep_def split: prod.splits)

lemma pp_loop_spec:
  assumes "pp_delayReady d"
    and "delaysWithin S (delayTime p * pp_sampleRate d) (real_of_int (pp_bufferSize d) / 2) n
           (smoothDelayInSamples d)"
    and "i + n \<le> length left" and "i + n \<le> length r"
    and "\<forall>k. i \<le> k \<longrightarrow> left ! k = inL ! k" and "\<forall>k. i \<le> k \<longrightarrow> r ! k = inR ! k"
    and "d = spec_ppState S p inL inR i d0"
  shows "\<exists>left' r' d'.
           MyPingPongDelay_loop fadd S p i n left (Some r) d = Inr (left', Some r', d')
           \<and> d' = spec_ppState S p inL inR (i + n) d0
           \<and> pp_delayReady d'
           \<and> length left' = length left \<and> length r' = length r
           \<and> (\<forall>k. left' ! k =
                 (if i \<le> k \<and> k < i + n
                  then fadd (fadd (delayDryLevel p * inL ! k)
                          (delayDepth p * (delayWetLevel p *
                             spec_ppLeftDelayed S p (spec_ppState S p inL inR k d0))))
                        ((1 - delayDepth p) * (delayWetLevel p *
                             spec_ppRightDelayed S p (spec_ppState S p inL inR k d0)))
                  else left ! k))
           \<and> (\<forall>k. r' ! k =
                 (if i \<le> k \<and> k < i + n
                  then fadd (fadd (delayDryLevel p * inR ! k)
                          (delayDepth p * (delayWetLevel p *
                             spec_ppRightDelayed S p (spec_ppState S p inL inR k d0))))
                        ((1 - delayDepth p) * (delayWetLevel p *
                             spec_ppLeftDelayed S p (spec_ppState S p inL inR k d0)))
                  else r ! k))"
  using assms
proof (induction n arbitrary: i left r d)
  case 0
  then show ?case by simp
next
  case (Suc n)
  let ?D = "\<lambda>k. spec_ppState S p inL inR k d0"
  note w = pp_delaysWithin_Suc [OF Suc.prems(2)]
  have il: "i < length left" and ir: "i < length r"
    using Suc.prems(3,4) by simp_all
  have inl: "left ! i = inL ! i" and inr: "r ! i = inR ! i"
    using Suc.prems(5,6) by simp_all
  define A where "A = fadd (fadd (delayDryLevel p * left ! i)
                            (delayDepth p * (delayWetLevel p * spec_ppLeftDelayed S p d)))
                      ((1 - delayDepth p) * (delayWetLevel p * spec_ppRightDelayed S p d))"
  define B where "B = fadd (fadd (delayDryLevel p * r ! i)
                            (delayDepth p * (delayWetLevel p * spec_ppRightDelayed S p d)))
                      ((1 - delayDepth p) * (delayWetLevel p * spec_ppLeftDelayed S p d))"
  define d1 where "d1 = spec_ppStep S p (left ! i) (r ! i) d"
  have s1: "MyPingPongDelay_sample fadd S p i left (Some r) d = Inr (left[i := A], Some (r[i := B]), d1)"
    unfolding A_def B_def d1_def
    by (rule pp_sample_spec [OF Suc.prems(1) w(1,2) il ir])
  have d1D: "d1 = ?D (Suc i)"
    using Suc.prems(7) inl inr by (simp add: d1_def)
  have rdy1: "pp_delayReady d1"
    unfolding d1_def by (rule spec_ppStep_ready [OF Suc.prems(1)])
  have w1: "delaysWithin S (delayTime p * pp_sampleRate d1) (real_of_int (pp_bufferSize d1) / 2) n
              (smoothDelayInSamples d1)"
    unfolding d1_def by (rule w(3))
  have b1: "Suc i + n \<le> length (left[i := A])" "Suc i + n \<le> length (r[i := B])"
    using Suc.prems(3,4) by simp_all
  have b3: "\<forall>k. Suc i \<le> k \<longrightarrow> left[i := A] ! k = inL ! k"
    "\<forall>k. Suc i \<le> k \<longrightarrow> r[i := B] ! k = inR ! k"
    using Suc.prems(5,6) by simp_all
  from Suc.IH [OF rdy1 w1 b1 b3 d1D]
  obtain left' r' d' where fin:
    "MyPingPongDelay_loop fadd S p (Suc i) n (left[i := A]) (Some (r[i := B])) d1 = Inr (left', Some r', d')"
    "d' = ?D (Suc i + n)" "pp_delayReady d'"
    "length left' = length (left[i := A])" "length r' = length (r[i := B])"
    "\<forall>k. left' ! k =
        (if Suc i \<le> k \<and> k < Suc i + n
         then fadd (fadd (delayDryLevel p * inL ! k)
                 (delayDepth p * (delayWetLevel p * spec_ppLeftDelayed S p (?D k))))
               ((1 - delayDepth p) * (delayWetLevel p * spec_ppRightDelayed S p (?D k)))
         else left[i := A] ! k)"
    "\<forall>k. r' ! k =
        (if Suc i \<le> k \<and> k < Suc i + n
         then fadd (fadd (delayDryLevel p * inR ! k)
                 (delayDepth p * (delayWetLevel p * spec_ppRightDelayed S p (?D k))))
               ((1 - delayDepth p) * (delayWetLevel p * spec_ppLeftDelayed S p (?D k)))
         else r[i := B] ! k)"
    by blast
  have loop: "MyPingPongDelay_loop fadd S p i (Suc n) left (Some r) d = Inr (left', Some r', d')"
    using s1 fin(1) by simp
  have L: "left' ! k =
        (if i \<le> k \<and> k < i + Suc n
         then fadd (fadd (delayDryLevel p * inL ! k)
                 (delayDepth p * (delayWetLevel p * spec_ppLeftDelayed S p (?D k))))
               ((1 - delayDepth p) * (delayWetLevel p * spec_ppRightDelayed S p (?D k)))
         else left ! k)" for k
  proof (cases "k = i")
    case True
    then show ?thesis
      using fin(6) il inl Suc.prems(7) by (simp add: A_def)
  next
    case False
    then show ?thesis
      using fin(6) by auto
  qed
  have R: "r' ! k =
        (if i \<le> k \<and> k < i + Suc n
         then fadd (fadd (delayDryLevel p * inR ! k)
                 (delayDepth p * (delayWetLevel p * spec_ppRightDelayed S p (?D k))))
               ((1 - delayDepth p) * (delayWetLevel p * spec_ppLeftDelayed S p (?D k)))
         else r ! k)" for k
  proof (cases "k = i")
    case True
    then show ?thesis
      using fin(7) ir inr Suc.prems(7) by (simp add: B_def)
  next
    case False
    then show ?thesis
      using fin(7) by auto
  qed
  show ?case
    using loop fin(2,3,4,5) L R by simp
qed

lemma pp_apply_spec:
  assumes on: "delayOn p" and rdy: "pp_delayReady d"
    and within: "delaysWithin S (delayTime p * pp_sampleRate d) (real_of_int (pp_bufferSize d) / 2)
                   (nat n) (smoothDelayInSamples d)"
    and chans: "2 \<le> length buffer" "1 < c"
    and len: "nat n \<le> length (buffer ! 0)" "nat n \<le> length (buffer ! 1)"
  shows "\<exists>outL outR d'.
           MyPingPongDelay_apply fadd S p buffer n c d = Inr (buffer[0 := outL, 1 := outR], d')
           \<and> d' = spec_ppState S p (buffer ! 0) (buffer ! 1) (nat n) (d\<lparr> pp_emptyBuffers := False \<rparr>)
           \<and> length outL = length (buffer ! 0) \<and> length outR = length (buffer ! 1)
           \<and> (\<forall>k. outL ! k =
                 (if k < nat n
                  then fadd (fadd (delayDryLevel p * buffer ! 0 ! k)
                          (delayDepth p * (delayWetLevel p *
                             spec_ppLeftDelayed S p
                               (spec_ppState S p (buffer ! 0) (buffer ! 1) k (d\<lparr> pp_emptyBuffers := False \<rparr>)))))
                        ((1 - delayDepth p) * (delayWetLevel p *
                             spec_ppRightDelayed S p
                               (spec_ppState S p (buffer ! 0) (buffer ! 1) k (d\<lparr> pp_emptyBuffers := False \<rparr>))))
                  else buffer ! 0 ! k))
           \<and> (\<forall>k. outR ! k =
                 (if k < nat n
                  then fadd (fadd (delayDryLevel p * buffer ! 1 ! k)
                          (delayDepth p * (delayWetLevel p *
                             spec_ppRightDelayed S p
                               (spec_ppState S p (buffer ! 0) (buffer ! 1) k (d\<lparr> pp_emptyBuffers := False \<rparr>)))))
                        ((1 - delayDepth p) * (delayWetLevel p *
                             spec_ppLeftDelayed S p
                               (spec_ppState S p (buffer ! 0) (buffer ! 1) k (d\<lparr> pp_emptyBuffers := False \<rparr>))))
                  else buffer ! 1 ! k))"
proof -
  let ?d0 = "d\<lparr> pp_emptyBuffers := False \<rparr>"
  have rdy0: "pp_delayReady ?d0"
    using rdy by (simp add: pp_delayReady_def)
  have w0: "delaysWithin S (delayTime p * pp_sampleRate ?d0) (real_of_int (pp_bufferSize ?d0) / 2) (nat n)
              (smoothDelayInSamples ?d0)"
    using within by simp
  have l0: "0 + nat n \<le> length (buffer ! 0)" "0 + nat n \<le> length (buffer ! 1)"
    using len by simp_all
  have a0: "\<forall>k. 0 \<le> k \<longrightarrow> buffer ! 0 ! k = buffer ! 0 ! k" "\<forall>k. 0 \<le> k \<longrightarrow> buffer ! 1 ! k = buffer ! 1 ! k"
    by simp_all
  have s0: "?d0 = spec_ppState S p (buffer ! 0) (buffer ! 1) 0 ?d0" by simp
  from pp_loop_spec [OF rdy0 w0 l0 a0 s0, of fadd]
  obtain left' r' d' where loop:
    "MyPingPongDelay_loop fadd S p 0 (nat n) (buffer ! 0) (Some (buffer ! 1)) ?d0 = Inr (left', Some r', d')"
    and rest: "d' = spec_ppState S p (buffer ! 0) (buffer ! 1) (0 + nat n) ?d0"
      "length left' = length (buffer ! 0)" "length r' = length (buffer ! 1)"
      "\<forall>k. left' ! k =
                 (if 0 \<le> k \<and> k < 0 + nat n
                  then fadd (fadd (delayDryLevel p * buffer ! 0 ! k)
                          (delayDepth p * (delayWetLevel p *
                             spec_ppLeftDelayed S p (spec_ppState S p (buffer ! 0) (buffer ! 1) k ?d0))))
                        ((1 - delayDepth p) * (delayWetLevel p *
                             spec_ppRightDelayed S p (spec_ppState S p (buffer ! 0) (buffer ! 1) k ?d0)))
                  else buffer ! 0 ! k)"
      "\<forall>k. r' ! k =
                 (if 0 \<le> k \<and> k < 0 + nat n
                  then fadd (fadd (delayDryLevel p * buffer ! 1 ! k)
                          (delayDepth p * (delayWetLevel p *
                             spec_ppRightDelayed S p (spec_ppState S p (buffer ! 0) (buffer ! 1) k ?d0))))
                        ((1 - delayDepth p) * (delayWetLevel p *
                             spec_ppLeftDelayed S p (spec_ppState S p (buffer ! 0) (buffer ! 1) k ?d0)))
                  else buffer ! 1 ! k)"
    by blast
  have ap: "MyPingPongDelay_apply fadd S p buffer n c d = Inr (buffer[0 := left', 1 := r'], d')"
    using on chans loop by (auto simp: MyPingPongDelay_apply_def)
  have d'': "d' = spec_ppState S p (buffer ! 0) (buffer ! 1) (nat n) ?d0"
    using rest(1) by simp
  have L': "\<forall>k. left' ! k =
                 (if k < nat n
                  then fadd (fadd (delayDryLevel p * buffer ! 0 ! k)
                          (delayDepth p * (delayWetLevel p *
                             spec_ppLeftDelayed S p (spec_ppState S p (buffer ! 0) (buffer ! 1) k ?d0))))
                        ((1 - delayDepth p) * (delayWetLevel p *
                             spec_ppRightDelayed S p (spec_ppState S p (buffer ! 0) (buffer ! 1) k ?d0)))
                  else buffer ! 0 ! k)"
    using rest(4) by simp
  have R': "\<forall>k. r' ! k =
                 (if k < nat n
                  then fadd (fadd (delayDryLevel p * buffer ! 1 ! k)
                          (delayDepth p * (delayWetLevel p *
                             spec_ppRightDelayed S p (spec_ppState S p (buffer ! 0) (buffer ! 1) k ?d0))))
                        ((1 - delayDepth p) * (delayWetLevel p *
                             spec_ppLeftDelayed S p (spec_ppState S p (buffer ! 0) (buffer ! 1) k ?d0)))
                  else buffer ! 1 ! k)"
    using rest(5) by simp
  show ?thesis
    by (intro exI conjI) (rule ap d'' rest(2) rest(3) L' R')+
qed

lemma floor_three_halves: "\<lfloor>3 / 2 :: real\<rfloor> = 1"
  by (simp add: floor_eq_iff)

subsection \<open>Auxiliary lemmas on the voice\<close>

lemma addSample_ok:
  assumes "chan < length buffer" "0 \<le> idx" "idx < int (length (buffer ! chan))"
  shows "addSample buffer chan idx v =
           Inr (buffer[chan := (buffer ! chan)[nat idx := buffer ! chan ! nat idx + v]])"
  using assms by (simp add: addSample_def readAt_def writeAt_def)

lemma addSample_Inr:
  assumes "addSample buffer chan idx v = Inr b'"
  shows "chan < length buffer \<and> 0 \<le> idx \<and> idx < int (length (buffer ! chan))
         \<and> b' = buffer[chan := (buffer ! chan)[nat idx := buffer ! chan ! nat idx + v]]"
  using assms
  by (auto simp: addSample_def readAt_def writeAt_def bindF_eq_Inr split: if_splits)

lemma addToChannels_Inr:
  "addToChannels buffer chan n idx v = Inr b' \<Longrightarrow>
     length b' = length buffer
     \<and> (\<forall>c<length buffer. b' ! c =
           (if chan \<le> c \<and> c < chan + n
            then (buffer ! c)[nat idx := buffer ! c ! nat idx + v] else buffer ! c))"
proof (induction n arbitrary: buffer chan)
  case 0
  then show ?case by auto
next
  case (Suc n)
  then obtain b1 where b1: "addSample buffer chan idx v = Inr b1"
    and rest: "addToChannels b1 (Suc chan) n idx v = Inr b'"
    by (auto simp: bindF_eq_Inr)
  note a = addSample_Inr [OF b1]
  from Suc.IH [OF rest] have len: "length b' = length b1"
    and nth: "\<forall>c<length b1. b' ! c =
           (if Suc chan \<le> c \<and> c < Suc chan + n
            then (b1 ! c)[nat idx := b1 ! c ! nat idx + v] else b1 ! c)"
    by simp_all
  have l1: "length b1 = length buffer" using a by simp
  show ?case
  proof (intro conjI allI impI)
    show "length b' = length buffer" using len l1 by simp
  next
    fix c assume c: "c < length buffer"
    then have "b' ! c = (if Suc chan \<le> c \<and> c < Suc chan + n
            then (b1 ! c)[nat idx := b1 ! c ! nat idx + v] else b1 ! c)"
      using nth l1 by simp
    moreover have "b1 ! c = (if c = chan then (buffer ! c)[nat idx := buffer ! c ! nat idx + v]
                             else buffer ! c)"
      using a c by (simp add: nth_list_update)
    ultimately show "b' ! c =
           (if chan \<le> c \<and> c < chan + Suc n
            then (buffer ! c)[nat idx := buffer ! c ! nat idx + v] else buffer ! c)"
      by auto
  qed
qed

lemma addToChannels_ok:
  assumes "0 \<le> idx" "\<forall>c. chan \<le> c \<and> c < chan + n \<longrightarrow> c < length buffer \<and> idx < int (length (buffer ! c))"
  shows "\<exists>b'. addToChannels buffer chan n idx v = Inr b'"
  using assms
proof (induction n arbitrary: buffer chan)
  case 0
  then show ?case by simp
next
  case (Suc n)
  have c0: "chan < length buffer" "idx < int (length (buffer ! chan))"
    using Suc.prems(2) by simp_all
  let ?b1 = "buffer[chan := (buffer ! chan)[nat idx := buffer ! chan ! nat idx + v]]"
  have s: "addSample buffer chan idx v = Inr ?b1"
    using c0 Suc.prems(1) by (simp add: addSample_ok)
  have "\<forall>c. Suc chan \<le> c \<and> c < Suc chan + n \<longrightarrow> c < length ?b1 \<and> idx < int (length (?b1 ! c))"
    using Suc.prems(2) by (auto simp: nth_list_update)
  from Suc.IH [OF Suc.prems(1) this] show ?case
    using s by simp
qed

lemma voice_nextSample_flags:
  "playing (snd (voice_nextSample X p sr v)) = playing v
   \<and> ending (snd (voice_nextSample X p sr v)) = ending v
   \<and> currentlyPlayingNote (snd (voice_nextSample X p sr v)) = currentlyPlayingNote v"
  by (simp add: voice_nextSample_def Let_def split: prod.splits)

lemma voice_nextSample_amp:
  "amp (snd (voice_nextSample X p sr v)) =
     snd (amp_apply (adsrOps X) p
            (fst (filter_apply (filterOps X) sr
               (fst (osc_getNextSample (oscOps X)
                       (osc_updateParams (oscOps X) sr (appliesToOsc1Frequency p) (appliesToOsc1Cents p)
                          (fst (lfo_getNextSample p (lfo_updateParams p sr (lfo v)))) (osc1 v)))
                + fst (osc_getNextSample (oscOps X)
                       (osc_updateParams (oscOps X) sr (appliesToOsc2Frequency p) (appliesToOsc2Cents p)
                          (fst (lfo_getNextSample p (lfo_updateParams p sr (lfo v)))) (osc2 v)))
                + fst (noise_getNextSample (adsrOps X) (randomOps X) (iirOps X) p (noiseGen v)))
               (appliesToFilterFrequency p) (appliesToFilterQ p)
               (fst (lfo_getNextSample p (lfo_updateParams p sr (lfo v)))) (voiceFilter v)))
            (appliesToAmpVolume p) (appliesToAmpDistortion p)
            (fst (lfo_getNextSample p (lfo_updateParams p sr (lfo v)))) (amp v))
   \<and> fst (voice_nextSample X p sr v) =
     fst (amp_apply (adsrOps X) p
            (fst (filter_apply (filterOps X) sr
               (fst (osc_getNextSample (oscOps X)
                       (osc_updateParams (oscOps X) sr (appliesToOsc1Frequency p) (appliesToOsc1Cents p)
                          (fst (lfo_getNextSample p (lfo_updateParams p sr (lfo v)))) (osc1 v)))
                + fst (osc_getNextSample (oscOps X)
                       (osc_updateParams (oscOps X) sr (appliesToOsc2Frequency p) (appliesToOsc2Cents p)
                          (fst (lfo_getNextSample p (lfo_updateParams p sr (lfo v)))) (osc2 v)))
                + fst (noise_getNextSample (adsrOps X) (randomOps X) (iirOps X) p (noiseGen v)))
               (appliesToFilterFrequency p) (appliesToFilterQ p)
               (fst (lfo_getNextSample p (lfo_updateParams p sr (lfo v)))) (voiceFilter v)))
            (appliesToAmpVolume p) (appliesToAmpDistortion p)
            (fst (lfo_getNextSample p (lfo_updateParams p sr (lfo v)))) (amp v))"
  by (simp add: voice_nextSample_def Let_def split: prod.splits)

lemma amp_apply_zero:
  "fst (adsr_getNextSample E (ampEnv a)) = 0 \<Longrightarrow> fst (amp_apply E p x b1 b2 l a) = 0"
  by (auto simp: amp_apply_def Let_def split: prod.splits)

lemma voice_nextSample_zero:
  "fst (adsr_getNextSample (adsrOps X) (ampEnv (amp v))) = 0 \<Longrightarrow> fst (voice_nextSample X p sr v) = 0"
  by (simp add: voice_nextSample_amp amp_apply_zero)

lemma voice_sample_Inr:
  assumes "voice_sample X p sr buffer idx v = Inr (buffer', v')"
  shows "length buffer' = length buffer"
    and "\<forall>c<length buffer. buffer' ! c =
           (buffer ! c)[nat idx := buffer ! c ! nat idx + fst (voice_nextSample X p sr v)]"
    and "v' = (let v1 = snd (voice_nextSample X p sr v)
               in if ending v \<and> isClosed (amp v1)
                  then (clearCurrentNote v1)\<lparr> playing := False, ending := False \<rparr> else v1)"
proof -
  obtain a v1 where nx: "voice_nextSample X p sr v = (a, v1)"
    by (cases "voice_nextSample X p sr v")
  have e: "ending v1 = ending v"
    using voice_nextSample_flags [of X p sr v] nx by simp
  from assms nx obtain b1 where
    add: "addToChannels buffer 0 (length buffer) idx a = Inr b1"
    and res: "buffer' = b1"
      "v' = (if ending v1 \<and> isClosed (amp v1)
             then (clearCurrentNote v1)\<lparr> playing := False, ending := False \<rparr> else v1)"
    by (auto simp: voice_sample_def bindF_eq_Inr)
  note ch = addToChannels_Inr [OF add]
  show "length buffer' = length buffer" using ch res by simp
  show "\<forall>c<length buffer. buffer' ! c =
           (buffer ! c)[nat idx := buffer ! c ! nat idx + fst (voice_nextSample X p sr v)]"
    using ch res nx by simp
  show "v' = (let v1 = snd (voice_nextSample X p sr v)
               in if ending v \<and> isClosed (amp v1)
                  then (clearCurrentNote v1)\<lparr> playing := False, ending := False \<rparr> else v1)"
    using res nx e by (simp add: Let_def)
qed

lemma voice_sample_ok:
  assumes "0 \<le> idx" "\<forall>c<length buffer. idx < int (length (buffer ! c))"
  shows "\<exists>buffer' v'. voice_sample X p sr buffer idx v = Inr (buffer', v')"
proof -
  have "\<forall>c. 0 \<le> c \<and> c < 0 + length buffer \<longrightarrow> c < length buffer \<and> idx < int (length (buffer ! c))"
    using assms(2) by simp
  from addToChannels_ok [OF assms(1) this]
  obtain b' where "addToChannels buffer 0 (length buffer) idx (fst (voice_nextSample X p sr v)) = Inr b'"
    by blast
  then show ?thesis
    by (cases "voice_nextSample X p sr v") (simp add: voice_sample_def)
qed

lemma voice_sample_idle:
  assumes "voice_sample X p sr buffer idx v = Inr (buffer', v')" "\<not> ending v"
  shows "playing v' = playing v \<and> \<not> ending v' \<and> currentlyPlayingNote v' = currentlyPlayingNote v"
  using voice_sample_Inr(3) [OF assms(1)] assms(2) voice_nextSample_flags [of X p sr v]
  by (simp add: Let_def)

lemma render_loop_idle:
  "render_loop X p sr buffer idx n v = Inr (buffer', v') \<Longrightarrow> \<not> ending v \<Longrightarrow>
     playing v' = playing v \<and> \<not> ending v' \<and> currentlyPlayingNote v' = currentlyPlayingNote v"
proof (induction n arbitrary: buffer idx v)
  case 0
  then show ?case by simp
next
  case (Suc n)
  then obtain b1 v1 where s: "voice_sample X p sr buffer idx v = Inr (b1, v1)"
    and r: "render_loop X p sr b1 (idx + 1) n v1 = Inr (buffer', v')"
    by (auto simp: bindF_eq_Inr)
  from voice_sample_idle [OF s Suc.prems(2)] Suc.IH [OF r] show ?case
    by simp
qed


lemma amp_apply_envVal:
  "envVal (snd (amp_apply E p x b1 b2 l a)) = fst (adsr_getNextSample E (ampEnv a))"
  by (simp add: amp_apply_def Let_def split: prod.splits)

lemma voice_nextSample_closed:
  "isClosed (amp (snd (voice_nextSample X p sr v))) \<longleftrightarrow>
     fst (adsr_getNextSample (adsrOps X) (ampEnv (amp v))) < 1 / 1000000"
  by (simp add: isClosed_def voice_nextSample_amp amp_apply_envVal)

lemma render_loop_ok:
  assumes "0 \<le> idx" "\<forall>c<length buffer. idx + int n \<le> int (length (buffer ! c))"
  shows "\<exists>buffer' v'. render_loop X p sr buffer idx n v = Inr (buffer', v')"
  using assms
proof (induction n arbitrary: buffer idx v)
  case 0
  then show ?case by simp
next
  case (Suc n)
  have "\<forall>c<length buffer. idx < int (length (buffer ! c))"
    using Suc.prems(2) by auto
  from voice_sample_ok [OF Suc.prems(1) this]
  obtain b1 v1 where s: "voice_sample X p sr buffer idx v = Inr (b1, v1)"
    by blast
  note r = voice_sample_Inr(1,2) [OF s]
  have "\<forall>c<length b1. idx + 1 + int n \<le> int (length (b1 ! c))"
    using r Suc.prems(2) by auto
  moreover have "0 \<le> idx + 1" using Suc.prems(1) by simp
  ultimately obtain buffer' v' where "render_loop X p sr b1 (idx + 1) n v1 = Inr (buffer', v')"
    using Suc.IH by blast
  then show ?case using s by simp
qed

lemma voice_nextSample_noiseParams:
  "noiseEnvParams (noiseGen (snd (voice_nextSample X p sr v))) = noiseEnvParams (noiseGen v)"
  by (simp add: voice_nextSample_def noise_getNextSample_def Let_def split: prod.splits)

lemma voice_sample_noiseParams:
  assumes "voice_sample X p sr buffer idx v = Inr (buffer', v')"
  shows "noiseEnvParams (noiseGen v') = noiseEnvParams (noiseGen v)"
  using voice_sample_Inr(3) [OF assms] voice_nextSample_noiseParams [of X p sr v]
  by (simp add: Let_def clearCurrentNote_def)

lemma render_loop_noiseParams:
  "render_loop X p sr buffer idx n v = Inr (buffer', v') \<Longrightarrow>
     noiseEnvParams (noiseGen v') = noiseEnvParams (noiseGen v)"
proof (induction n arbitrary: buffer idx v)
  case 0
  then show ?case by simp
next
  case (Suc n)
  then obtain b1 v1 where s: "voice_sample X p sr buffer idx v = Inr (b1, v1)"
    and r: "render_loop X p sr b1 (idx + 1) n v1 = Inr (buffer', v')"
    by (auto simp: bindF_eq_Inr)
  from voice_sample_noiseParams [OF s] Suc.IH [OF r] show ?case
    by simp
qed

lemma renderNextBlock_noiseParams:
  assumes "0 \<le> start" "\<forall>c<length buffer. start + int (nat m) \<le> int (length (buffer ! c))"
  shows "\<exists>buffer' v'.
           renderNextBlock X p buffer start m v = Inr (buffer', v')
           \<and> noiseEnvParams (noiseGen v') =
               (if playing v
                then noiseEnvParams (noise_updateParams (adsrOps X) (iirOps X) p (currentSampleRate v)
                                       (noiseGen v))
                else noiseEnvParams (noiseGen v))"
proof (cases "playing v")
  case False
  then show ?thesis by (simp add: renderNextBlock_def)
next
  case True
  let ?v1 = "v\<lparr> noiseGen := noise_updateParams (adsrOps X) (iirOps X) p (currentSampleRate v) (noiseGen v),
                 amp := amp_updateParams (adsrOps X) p (currentSampleRate v) (amp v) \<rparr>"
  from render_loop_ok [OF assms, of X p "currentSampleRate v" ?v1]
  obtain buffer' v' where r: "render_loop X p (currentSampleRate v) buffer start (nat m) ?v1 = Inr (buffer', v')"
    by blast
  from render_loop_noiseParams [OF r] r True show ?thesis
    by (simp add: renderNextBlock_def Let_def)
qed

lemma addToChannels_bounds:
  "addToChannels buffer chan n idx v = Inr b' \<Longrightarrow>
     \<forall>c. chan \<le> c \<and> c < chan + n \<longrightarrow>
       c < length buffer \<and> 0 \<le> idx \<and> idx < int (length (buffer ! c))"
proof (induction n arbitrary: buffer chan)
  case 0
  then show ?case by simp
next
  case (Suc n)
  then obtain b1 where b1: "addSample buffer chan idx v = Inr b1"
    and rest: "addToChannels b1 (Suc chan) n idx v = Inr b'"
    by (auto simp: bindF_eq_Inr)
  note a = addSample_Inr [OF b1]
  note ih = Suc.IH [OF rest]
  show ?case
  proof (intro allI impI)
    fix c assume c: "chan \<le> c \<and> c < chan + Suc n"
    show "c < length buffer \<and> 0 \<le> idx \<and> idx < int (length (buffer ! c))"
    proof (cases "c = chan")
      case True
      then show ?thesis using a by simp
    next
      case False
      with c have "Suc chan \<le> c \<and> c < Suc chan + n" by simp
      with ih have "c < length b1 \<and> 0 \<le> idx \<and> idx < int (length (b1 ! c))" by blast
      then show ?thesis using a False by (simp add: nth_list_update)
    qed
  qed
qed

lemma voice_sample_bounds:
  assumes "voice_sample X p sr buffer idx v = Inr (buffer', v')"
  shows "\<forall>c<length buffer. 0 \<le> idx \<and> idx < int (length (buffer ! c))"
proof -
  from assms obtain a where "addToChannels buffer 0 (length buffer) idx a = Inr buffer'"
    by (cases "voice_nextSample X p sr v") (auto simp: voice_sample_def bindF_eq_Inr)
  from addToChannels_bounds [OF this] show ?thesis by simp
qed

lemma voice_sample_after:
  assumes "voice_sample X p sr buffer idx v = Inr (buffer', v')"
  shows "v' = voice_afterSample X p sr v"
  using voice_sample_Inr(3) [OF assms] voice_nextSample_flags [of X p sr v]
  by (simp add: voice_afterSample_def Let_def)

lemma voice_afterSamples_shift:
  "voice_afterSamples X p sr (Suc k) v = voice_afterSamples X p sr k (voice_afterSample X p sr v)"
  by (induction k) simp_all

lemma render_loop_spec:
  "render_loop X p sr b idx n v = Inr (b', v') \<Longrightarrow>
     v' = voice_afterSamples X p sr n v
     \<and> length b' = length b
     \<and> (\<forall>c<length b. length (b' ! c) = length (b ! c)
          \<and> (\<forall>j. b' ! c ! j =
                (if nat idx \<le> j \<and> j < nat idx + n
                 then b ! c ! j
                      + fst (voice_nextSample X p sr (voice_afterSamples X p sr (j - nat idx) v))
                 else b ! c ! j)))"
proof (induction n arbitrary: b idx v)
  case 0
  then show ?case by simp
next
  case (Suc n)
  then obtain b1 v1 where s: "voice_sample X p sr b idx v = Inr (b1, v1)"
    and r: "render_loop X p sr b1 (idx + 1) n v1 = Inr (b', v')"
    by (auto simp: bindF_eq_Inr)
  note s1 = voice_sample_Inr(1,2) [OF s]
  note bd = voice_sample_bounds [OF s]
  have v1: "v1 = voice_afterSample X p sr v" by (rule voice_sample_after [OF s])
  from Suc.IH [OF r] have ih:
    "v' = voice_afterSamples X p sr n v1" "length b' = length b1"
    "\<forall>c<length b1. length (b' ! c) = length (b1 ! c)
          \<and> (\<forall>j. b' ! c ! j =
                (if nat (idx + 1) \<le> j \<and> j < nat (idx + 1) + n
                 then b1 ! c ! j
                      + fst (voice_nextSample X p sr (voice_afterSamples X p sr (j - nat (idx + 1)) v1))
                 else b1 ! c ! j))"
    by simp_all
  have st: "v' = voice_afterSamples X p sr (Suc n) v"
    using ih(1) v1 by (simp only: voice_afterSamples_shift)
  have ch: "length (b' ! c) = length (b ! c)
          \<and> (\<forall>j. b' ! c ! j =
                (if nat idx \<le> j \<and> j < nat idx + Suc n
                 then b ! c ! j
                      + fst (voice_nextSample X p sr (voice_afterSamples X p sr (j - nat idx) v))
                 else b ! c ! j))" if c: "c < length b" for c
  proof -
    have i0: "0 \<le> idx" "nat idx < length (b ! c)" using bd c by auto
    have n1: "nat (idx + 1) = Suc (nat idx)" using i0 by simp
    have b1c: "b1 ! c = (b ! c)[nat idx := b ! c ! nat idx + fst (voice_nextSample X p sr v)]"
      using s1 c by simp
    have len: "length (b' ! c) = length (b ! c)"
      using ih(3) s1 c b1c by simp
    have nth: "b' ! c ! j =
                (if nat idx \<le> j \<and> j < nat idx + Suc n
                 then b ! c ! j
                      + fst (voice_nextSample X p sr (voice_afterSamples X p sr (j - nat idx) v))
                 else b ! c ! j)" for j
    proof -
      have f: "b' ! c ! j =
                (if Suc (nat idx) \<le> j \<and> j < Suc (nat idx) + n
                 then b1 ! c ! j
                      + fst (voice_nextSample X p sr (voice_afterSamples X p sr (j - Suc (nat idx)) v1))
                 else b1 ! c ! j)"
        using ih(3) s1(1) c n1 by simp
      show ?thesis
      proof (cases "j = nat idx")
        case True
        then show ?thesis using f b1c i0 by simp
      next
        case False
        show ?thesis
        proof (cases "Suc (nat idx) \<le> j \<and> j < Suc (nat idx) + n")
          case True
          then have "j - nat idx = Suc (j - Suc (nat idx))" by linarith
          then have "voice_afterSamples X p sr (j - nat idx) v
                       = voice_afterSamples X p sr (j - Suc (nat idx)) v1"
            using v1 by (simp only: voice_afterSamples_shift)
          then show ?thesis using f True False b1c by simp
        next
          case F2: False
          then show ?thesis using f False b1c by auto
        qed
      qed
    qed
    show ?thesis using len nth by blast
  qed
  show ?case
    using st ih(2) s1(1) ch by simp
qed

lemma renderNextBlock_spec:
  assumes "playing v" "0 \<le> start"
    and "\<forall>c<length buffer. start + int (nat n) \<le> int (length (buffer ! c))"
  shows "\<exists>buffer' v'.
     renderNextBlock X p buffer start n v = Inr (buffer', v')
     \<and> v' = voice_inBlock X p v (nat n)
     \<and> length buffer' = length buffer
     \<and> (\<forall>c<length buffer. \<forall>j<nat n.
          buffer' ! c ! (nat start + j) =
            buffer ! c ! (nat start + j)
            + fst (voice_nextSample X p (currentSampleRate v) (voice_inBlock X p v j)))"
proof -
  have eq: "renderNextBlock X p buffer start n v =
      render_loop X p (currentSampleRate v) buffer start (nat n) (voice_blockStart X p v)"
    using assms(1) by (simp add: renderNextBlock_def voice_blockStart_def Let_def)
  obtain buffer' v' where r:
    "render_loop X p (currentSampleRate v) buffer start (nat n) (voice_blockStart X p v)
       = Inr (buffer', v')"
    using render_loop_ok [OF assms(2,3)] by blast
  note sp = render_loop_spec [OF r]
  have a: "renderNextBlock X p buffer start n v = Inr (buffer', v')"
    using eq r by simp
  have b: "v' = voice_inBlock X p v (nat n)"
    using sp by (simp add: voice_inBlock_def)
  have c: "length buffer' = length buffer"
    using sp by simp
  have d: "\<forall>c<length buffer. \<forall>j<nat n.
          buffer' ! c ! (nat start + j) =
            buffer ! c ! (nat start + j)
            + fst (voice_nextSample X p (currentSampleRate v) (voice_inBlock X p v j))"
  proof (intro allI impI)
    fix c j
    assume c: "c < length buffer" and j: "j < nat n"
    from sp c have "buffer' ! c ! (nat start + j) =
                (if nat start \<le> nat start + j \<and> nat start + j < nat start + nat n
                 then buffer ! c ! (nat start + j)
                      + fst (voice_nextSample X p (currentSampleRate v)
                          (voice_afterSamples X p (currentSampleRate v) (nat start + j - nat start)
                             (voice_blockStart X p v)))
                 else buffer ! c ! (nat start + j))"
      by blast
    then show "buffer' ! c ! (nat start + j) =
            buffer ! c ! (nat start + j)
            + fst (voice_nextSample X p (currentSampleRate v) (voice_inBlock X p v j))"
      using j by (simp add: voice_inBlock_def)
  qed
  show ?thesis
    by (intro exI conjI) (rule a b c d)+
qed

lemma voice_afterSample_closing:
  assumes "ending v"
    and "fst (adsr_getNextSample (adsrOps X) (ampEnv (amp v))) < 1 / 1000000"
  shows "isClosed (amp (voice_afterSample X p sr v))
     \<and> \<not> playing (voice_afterSample X p sr v)
     \<and> \<not> ending (voice_afterSample X p sr v)
     \<and> currentlyPlayingNote (voice_afterSample X p sr v) = - 1"
proof -
  have cl: "isClosed (amp (snd (voice_nextSample X p sr v)))"
    using assms(2) by (simp add: voice_nextSample_closed)
  have e: "ending (snd (voice_nextSample X p sr v))"
    using assms(1) voice_nextSample_flags [of X p sr v] by simp
  show ?thesis
    using cl e by (simp add: voice_afterSample_def Let_def clearCurrentNote_def)
qed

lemma voice_afterSample_idle:
  assumes "\<not> ending v"
  shows "playing (voice_afterSample X p sr v) = playing v
     \<and> \<not> ending (voice_afterSample X p sr v)
     \<and> currentlyPlayingNote (voice_afterSample X p sr v) = currentlyPlayingNote v"
  using assms voice_nextSample_flags [of X p sr v]
  by (simp add: voice_afterSample_def Let_def)

lemma voice_afterSamples_idle:
  "\<not> ending v \<Longrightarrow>
     playing (voice_afterSamples X p sr k v) = playing v
     \<and> \<not> ending (voice_afterSamples X p sr k v)
     \<and> currentlyPlayingNote (voice_afterSamples X p sr k v) = currentlyPlayingNote v"
proof (induction k)
  case 0
  then show ?case by simp
next
  case (Suc k)
  from Suc.IH [OF Suc.prems] voice_afterSample_idle [of "voice_afterSamples X p sr k v" X p sr]
  show ?case by simp
qed

lemma voice_afterSamples_add:
  "voice_afterSamples X p sr (a + b) v = voice_afterSamples X p sr b (voice_afterSamples X p sr a v)"
  by (induction b) simp_all

lemma voice_inBlock_closing:
  assumes "ending (voice_inBlock X p v k)"
    and "fst (adsr_getNextSample (adsrOps X) (ampEnv (amp (voice_inBlock X p v k)))) < 1 / 1000000"
  shows "isClosed (amp (voice_inBlock X p v (Suc k)))"
    and "k < j \<Longrightarrow> \<not> playing (voice_inBlock X p v j) \<and> \<not> ending (voice_inBlock X p v j)
           \<and> currentlyPlayingNote (voice_inBlock X p v j) = - 1"
proof -
  have s: "voice_inBlock X p v (Suc k) =
             voice_afterSample X p (currentSampleRate v) (voice_inBlock X p v k)"
    by (simp add: voice_inBlock_def)
  note c = voice_afterSample_closing [OF assms, of p "currentSampleRate v"]
  show "isClosed (amp (voice_inBlock X p v (Suc k)))"
    using c s by simp
  assume "k < j"
  then have "j = Suc k + (j - Suc k)" by simp
  then have "voice_inBlock X p v j =
      voice_afterSamples X p (currentSampleRate v) (j - Suc k) (voice_inBlock X p v (Suc k))"
    unfolding voice_inBlock_def using voice_afterSamples_add by metis
  then show "\<not> playing (voice_inBlock X p v j) \<and> \<not> ending (voice_inBlock X p v j)
           \<and> currentlyPlayingNote (voice_inBlock X p v j) = - 1"
    using c s voice_afterSamples_idle
            [of "voice_inBlock X p v (Suc k)" X p "currentSampleRate v" "j - Suc k"]
    by simp
qed

lemmas voice_eval_defs =
  renderNextBlock_def exampleVoice_def exampleParameters_def defaultParameters_def
  standIns_def listADSR_def constOsc_def passFilter_def passIIR_def constRandom_def
  noise_updateParams_def amp_updateParams_def MyNoiseGenerator_new_def juceDefaultADSR_def
  voice_sample_def voice_nextSample_def lfo_updateParams_def updatePhaseDelta_def
  lfo_getNextSample_def getNextSampleTriangle_def getNextPhase_def
  appliesToOsc1Frequency_def appliesToOsc1Cents_def appliesToOsc2Frequency_def
  appliesToOsc2Cents_def appliesToFilterFrequency_def appliesToFilterQ_def
  appliesToAmpVolume_def appliesToAmpDistortion_def appliesTo1_def appliesTo2_def
  noise_getNextSample_def amp_apply_def getAmpVolume_def getAmpDist_def isClosed_def
  clearCurrentNote_def addSample_def readAt_def writeAt_def Let_def eval_nat_numeral
  exampleLoudVoice_def exampleLoudParameters_def

subsection \<open>LFO routing and waveforms\<close>

text \<open>
  C4. The query \<^verbatim>\<open>appliesToOsc1Frequency()\<close> is true exactly when the LFO is switched
  on and the destination selector is 0 or 4; with the LFO switched off it is false
  whatever the selector holds.
\<close>

theorem appliesToOsc1Frequency_iff:
  "(appliesToOsc1Frequency p \<longleftrightarrow> lfoOn p \<and> lfoAppliesTo p \<in> {0, 4})
   \<and> appliesToOsc1Frequency (p\<lparr>lfoOn := False, lfoAppliesTo := k\<rparr>) = False"
  by (simp add: appliesToOsc1Frequency_def appliesTo2_def Let_def)

text \<open>
  C5. Each waveform is evaluated at the phase that \<^verbatim>\<open>getNextPhase\<close> returns: the sine
  is \<open>sin (2\<pi>\<cdot>phase)\<close>, the triangle \<open>4\<cdot>|phase - 0.5| - 1\<close>, the square \<open>-1\<close> below
  \<open>0.5\<close> and \<open>+1\<close> from there on, the rising sawtooth \<open>2\<cdot>phase - 1\<close>, the falling
  sawtooth its negation; \<^verbatim>\<open>getNextSample\<close> returns the depth parameter times the
  waveform selected by the type parameter, and the depth lies in \<open>[0, 1]\<close> for
  parameters within their declared ranges.
\<close>

theorem lfo_getNextSample_waveforms:
  "declaredRanges p \<Longrightarrow>
     fst (lfo_getNextSample (p\<lparr>lfoType := 0\<rparr>) l) = lfoDepth p * sin (2 * pi * fst (getNextPhase l))
   \<and> fst (lfo_getNextSample (p\<lparr>lfoType := 1\<rparr>) l) = lfoDepth p * (4 * \<bar>fst (getNextPhase l) - 1 / 2\<bar> - 1)
   \<and> fst (lfo_getNextSample (p\<lparr>lfoType := 2\<rparr>) l) =
         lfoDepth p * (if fst (getNextPhase l) < 1 / 2 then - 1 else 1)
   \<and> fst (lfo_getNextSample (p\<lparr>lfoType := 3\<rparr>) l) = lfoDepth p * (2 * fst (getNextPhase l) - 1)
   \<and> fst (lfo_getNextSample (p\<lparr>lfoType := 4\<rparr>) l) = lfoDepth p * - (2 * fst (getNextPhase l) - 1)
   \<and> snd (lfo_getNextSample p l) = snd (getNextPhase l)
   \<and> 0 \<le> lfoDepth p \<and> lfoDepth p \<le> 1"
  by (simp add: lfo_getNextSample_def getNextSampleSine_def getNextSampleTriangle_def
      getNextSampleSquare_def getNextSampleSaw_def getNextSampleInvertedSaw_def pi2_def
      declaredRanges_def split: prod.splits)

theorem lfo_getNextSample_waveforms_witness:
  "declaredRanges defaultParameters
   \<and> fst (lfo_getNextSample (defaultParameters\<lparr>lfoType := 3\<rparr>) \<lparr>phaseDelta = 1 / 4, phase = 1 / 2\<rparr>)
       = 1 / 4
   \<and> fst (lfo_getNextSample (defaultParameters\<lparr>lfoType := 1\<rparr>) \<lparr>phaseDelta = 1 / 4, phase = 1 / 2\<rparr>)
       = 0"
proof -
  have r: "declaredRanges defaultParameters"
    by (simp add: declaredRanges_def defaultParameters_def)
  have ph: "fst (getNextPhase \<lparr>phaseDelta = 1 / 4, phase = 1 / 2\<rparr>) = 3 / 4"
    by (simp add: getNextPhase_def Let_def)
  have d: "lfoDepth defaultParameters = 1 / 2"
    by (simp add: defaultParameters_def)
  show ?thesis
    using r lfo_getNextSample_waveforms [OF r, of "\<lparr>phaseDelta = 1 / 4, phase = 1 / 2\<rparr>"]
    by (simp add: ph d)
qed

subsection \<open>Amplifier\<close>

text \<open>
  C6. With the distortion switched off, \<^verbatim>\<open>apply\<close> returns the product of the note's
  velocity, the envelope value drawn for this sample, the input sample and the
  effective volume, where the effective volume is the volume parameter times
  \<open>1 + lfoSample\<close> clamped to \<open>[0, 1]\<close> when the amp-volume route is active and the
  volume parameter itself otherwise; the envelope value is the one cached for
  \<^verbatim>\<open>isClosed\<close>.
\<close>

theorem amp_apply_linear:
  "\<not> ampDistOn p \<Longrightarrow>
     fst (amp_apply E p sample routeVolume routeDist lfoSample a) =
       velocityGain a * fst (adsr_getNextSample E (ampEnv a)) * sample *
         (if routeVolume then max 0 (min 1 (ampVolume p * (1 + lfoSample))) else ampVolume p)
   \<and> envVal (snd (amp_apply E p sample routeVolume routeDist lfoSample a)) =
       fst (adsr_getNextSample E (ampEnv a))"
  by (simp add: amp_apply_def getAmpVolume_def Let_def algebra_simps split: prod.splits)

theorem amp_apply_linear_witness:
  "\<not> ampDistOn defaultParameters
   \<and> fst (amp_apply listADSR defaultParameters 1 True False (1 / 2)
          \<lparr> ampEnv = [1 / 2], ampEnvParams = juceDefaultADSR, velocityGain = 1, envVal = 0 \<rparr>)
       = 3 / 40"
proof -
  have off: "\<not> ampDistOn defaultParameters"
    by (simp add: defaultParameters_def)
  show ?thesis
    using off amp_apply_linear [OF off, of listADSR 1 True False "1 / 2"
        "\<lparr> ampEnv = [1 / 2], ampEnvParams = juceDefaultADSR, velocityGain = 1, envVal = 0 \<rparr>"]
    by (simp add: listADSR_def defaultParameters_def)
qed

text \<open>
  C10. \<^verbatim>\<open>startNote\<close> leaves the cached envelope value alone, so \<^verbatim>\<open>isClosed\<close> answers
  after \<^verbatim>\<open>startNote\<close> what it answered before: true for a freshly constructed stage,
  and after an \<^verbatim>\<open>apply\<close> true exactly when the envelope value drawn by that \<^verbatim>\<open>apply\<close>
  was below \<open>10\<^sup>-\<^sup>6\<close>, as for a note that has fully released.
\<close>

theorem isClosed_startNote:
  "isClosed (amp_startNote E velocity a) = isClosed a
   \<and> envVal (amp_startNote E velocity a) = envVal a
   \<and> isClosed (amp_startNote E velocity (MyAmp_new e0 ep0 v0))
   \<and> isClosed (amp_startNote E velocity (snd (amp_apply E p x routeVolume routeDist lfoSample a))) =
       (fst (adsr_getNextSample E (ampEnv a)) < 1 / 1000000)"
  by (simp add: isClosed_def amp_startNote_def MyAmp_new_def amp_apply_envVal)

subsection \<open>Noise generator\<close>

text \<open>
  C7, as the code has it. The constructor fixes the attack and the release of the
  noise envelope at 10 ms and its sustain level at 0. \<^verbatim>\<open>updateParams\<close> changes the
  decay only: it becomes the duration parameter, or 10000 s when the duration
  parameter is at its maximum of 100, and the parameters are handed to the
  envelope; attack, sustain and release stay what they were. A block rendered by a
  playing voice (the block within every channel) leaves the parameters as one
  call of \<^verbatim>\<open>updateParams\<close> sets them, and a block of an idle voice as they were.
\<close>

theorem noise_envelope_parameters:
  assumes "0 \<le> start" and "\<forall>c<length buffer. start + int (nat m) \<le> int (length (buffer ! c))"
  shows
   "attack (noiseEnvParams (MyNoiseGenerator_new r0 i0 e0 ep0)) = 1 / 100
   \<and> release (noiseEnvParams (MyNoiseGenerator_new r0 i0 e0 ep0)) = 1 / 100
   \<and> sustain (noiseEnvParams (MyNoiseGenerator_new r0 i0 e0 ep0)) = 0
   \<and> attack (noiseEnvParams (noise_updateParams E I p sr g)) = attack (noiseEnvParams g)
   \<and> release (noiseEnvParams (noise_updateParams E I p sr g)) = release (noiseEnvParams g)
   \<and> sustain (noiseEnvParams (noise_updateParams E I p sr g)) = sustain (noiseEnvParams g)
   \<and> decay (noiseEnvParams (noise_updateParams E I p sr g)) =
       (if noiseDuration p = 100 then 10000 else noiseDuration p)
   \<and> noiseEnv (noise_updateParams E I p sr g) =
       adsr_setParameters E (noiseEnvParams (noise_updateParams E I p sr g)) (noiseEnv g)
   \<and> (\<exists>buffer' v'.
         renderNextBlock X p buffer start m v = Inr (buffer', v')
         \<and> noiseEnvParams (noiseGen v') =
             (if playing v
              then noiseEnvParams (noise_updateParams (adsrOps X) (iirOps X) p (currentSampleRate v)
                                     (noiseGen v))
              else noiseEnvParams (noiseGen v)))"
  using renderNextBlock_noiseParams [OF assms, of X p v]
  by (simp add: MyNoiseGenerator_new_def noise_updateParams_def Let_def)

theorem noise_envelope_parameters_witness:
  "(0::int) \<le> 0 \<and> 0 + int (nat 2) \<le> int (length ([[0, 0 :: real]] ! 0))
   \<and> (\<exists>buffer' v'.
         renderNextBlock standIns (exampleParameters\<lparr> noiseDuration := 100 \<rparr>) [[0, 0]] 0 2 exampleVoice
           = Inr (buffer', v')
         \<and> noiseEnvParams (noiseGen v') =
             \<lparr> attack = 1 / 100, decay = 10000, sustain = 0, release = 1 / 100 \<rparr>)"
proof -
  have a: "(0::int) \<le> 0" by simp
  have b: "\<forall>c<length [[0, 0 :: real]]. 0 + int (nat 2) \<le> int (length ([[0, 0 :: real]] ! c))"
    by simp
  show ?thesis
    using a b noise_envelope_parameters [OF a b, of _ _ _ _ _ _
        "exampleParameters\<lparr> noiseDuration := 100 \<rparr>" _ _ standIns exampleVoice]
    by (simp add: exampleVoice_def noise_updateParams_def MyNoiseGenerator_new_def
        juceDefaultADSR_def Let_def)
qed

text \<open>
  The sustain level is not driven by any parameter: with every parameter at the
  lower end of its range and with every parameter at the upper end,
  \<^verbatim>\<open>updateParams\<close> leaves the sustain level at the constructor's 0.
\<close>

theorem noise_sustain_counterexample:
  "sustain (noiseEnvParams (noise_updateParams listADSR passIIR
      (defaultParameters\<lparr> noiseGain := 0, noiseFilter := 0, noiseDuration := 0,
         ampEnvAttack := 1 / 1000, ampEnvDecay := 0, ampEnvSustain := 0, ampEnvRelease := 0 \<rparr>)
      48000 (MyNoiseGenerator_new (0::real) () [] juceDefaultADSR))) = 0
   \<and> sustain (noiseEnvParams (noise_updateParams listADSR passIIR
      (defaultParameters\<lparr> noiseGain := 1, noiseFilter := 1, noiseDuration := 100,
         ampEnvAttack := 1, ampEnvDecay := 1, ampEnvSustain := 1, ampEnvRelease := 1 \<rparr>)
      48000 (MyNoiseGenerator_new (0::real) () [] juceDefaultADSR))) = 0"
  by (simp add: MyNoiseGenerator_new_def noise_updateParams_def Let_def defaultParameters_def)

subsection \<open>Delay lines\<close>

text \<open>
  C1. \<^verbatim>\<open>MyDelay::apply\<close> with the effect on, on a prepared delay whose smoothed delay
  distance stays inside the line. One iteration of its loop: for each channel on
  its own, the delayed sample is the fractional read of that channel's line at the
  smoothed distance from the write index; the channel receives
  \<open>dryLevel\<cdot>original + wetLevel\<cdot>delayed\<close>; the line receives
  \<open>original + feedback\<cdot>delayed\<close> at the write index; and the write index, the same
  for both channels, moves on by one modulo the capacity after both. A whole block,
  stereo or mono: \<^verbatim>\<open>apply\<close> returns, sample \<open>k\<close> of each output channel is
  \<open>dryLevel\<cdot>input k + wetLevel\<cdot>delayed\<close> with the delayed sample read from the
  channel's line as the first \<open>k\<close> samples have left it, the samples after the block
  are untouched, and the delay is left as the specification's steps leave it, its
  write index advanced once per sample.
\<close>

theorem MyDelay_apply_formula:
  assumes "delayReady d" and "delayOn p"
    and "delaysWithin S (delayTime p * sampleRate d) (real_of_int (bufferSize d)) (nat n)
           (smoothDelaySamples d)"
    and "nat n \<le> length inL" and "nat n \<le> length inR"
    and "sv_getNextValue S (sv_setTargetValue S (delayTime p * sampleRate d) (smoothDelaySamples d))
           = (dly, sm')"
    and "0 \<le> dly" and "dly < real_of_int (bufferSize d)"
    and "i < length left" and "case right of None \<Rightarrow> True | Some r \<Rightarrow> i < length r"
  shows "MyDelay_sample S p i left right d =
     Inr (left[i := delayDryLevel p * left ! i
                     + delayWetLevel p * spec_fractionalRead (leftBuffer d) (currentIndex d) (bufferSize d) dly],
          map_option (\<lambda>r. r[i := delayDryLevel p * r ! i
                     + delayWetLevel p * spec_fractionalRead (rightBuffer d) (currentIndex d) (bufferSize d) dly])
            right,
          d\<lparr> smoothDelaySamples := sm',
             leftBuffer := (leftBuffer d)[nat (currentIndex d) := left ! i
                     + delayFeedback p * spec_fractionalRead (leftBuffer d) (currentIndex d) (bufferSize d) dly],
             rightBuffer :=
               (case right of
                  None \<Rightarrow> rightBuffer d
                | Some r \<Rightarrow> (rightBuffer d)[nat (currentIndex d) := r ! i
                     + delayFeedback p * spec_fractionalRead (rightBuffer d) (currentIndex d) (bufferSize d) dly]),
             currentIndex := (currentIndex d + 1) mod bufferSize d \<rparr>)
     \<and> (\<exists>outL outR d'.
           MyDelay_apply S p [inL, inR] n 2 d = Inr ([outL, outR], d')
           \<and> d' = spec_delayState S p inL (Some inR) (nat n) (d\<lparr> emptyBuffers := False \<rparr>)
           \<and> currentIndex d' = (currentIndex d + int (nat n)) mod bufferSize d
           \<and> length outL = length inL \<and> length outR = length inR
           \<and> (\<forall>k. outL ! k =
                 (if k < nat n
                  then delayDryLevel p * inL ! k
                       + delayWetLevel p * spec_delayed S p
                           (leftBuffer (spec_delayState S p inL (Some inR) k (d\<lparr> emptyBuffers := False \<rparr>)))
                           (spec_delayState S p inL (Some inR) k (d\<lparr> emptyBuffers := False \<rparr>))
                  else inL ! k))
           \<and> (\<forall>k. outR ! k =
                 (if k < nat n
                  then delayDryLevel p * inR ! k
                       + delayWetLevel p * spec_delayed S p
                           (rightBuffer (spec_delayState S p inL (Some inR) k (d\<lparr> emptyBuffers := False \<rparr>)))
                           (spec_delayState S p inL (Some inR) k (d\<lparr> emptyBuffers := False \<rparr>))
                  else inR ! k)))
     \<and> (\<exists>outL d'.
           MyDelay_apply S p [inL] n 1 d = Inr ([outL], d')
           \<and> d' = spec_delayState S p inL None (nat n) (d\<lparr> emptyBuffers := False \<rparr>)
           \<and> length outL = length inL
           \<and> (\<forall>k. outL ! k =
                 (if k < nat n
                  then delayDryLevel p * inL ! k
                       + delayWetLevel p * spec_delayed S p
                           (leftBuffer (spec_delayState S p inL None k (d\<lparr> emptyBuffers := False \<rparr>)))
                           (spec_delayState S p inL None k (d\<lparr> emptyBuffers := False \<rparr>))
                  else inL ! k)))"
proof (intro conjI)
  show "MyDelay_sample S p i left right d =
     Inr (left[i := delayDryLevel p * left ! i
                     + delayWetLevel p * spec_fractionalRead (leftBuffer d) (currentIndex d) (bufferSize d) dly],
          map_option (\<lambda>r. r[i := delayDryLevel p * r ! i
                     + delayWetLevel p * spec_fractionalRead (rightBuffer d) (currentIndex d) (bufferSize d) dly])
            right,
          d\<lparr> smoothDelaySamples := sm',
             leftBuffer := (leftBuffer d)[nat (currentIndex d) := left ! i
                     + delayFeedback p * spec_fractionalRead (leftBuffer d) (currentIndex d) (bufferSize d) dly],
             rightBuffer :=
               (case right of
                  None \<Rightarrow> rightBuffer d
                | Some r \<Rightarrow> (rightBuffer d)[nat (currentIndex d) := r ! i
                     + delayFeedback p * spec_fractionalRead (rightBuffer d) (currentIndex d) (bufferSize d) dly]),
             currentIndex := (currentIndex d + 1) mod bufferSize d \<rparr>)"
    by (rule MyDelay_sample_ok [OF assms(1) assms(6-10)])
next
  from MyDelay_apply_spec [OF assms(2) assms(1) assms(3-5)]
  obtain outL outR d' where sp:
    "MyDelay_apply S p [inL, inR] n 2 d = Inr ([outL, outR], d')"
    "d' = spec_delayState S p inL (Some inR) (nat n) (d\<lparr> emptyBuffers := False \<rparr>)"
    "length outL = length inL" "length outR = length inR"
    "\<forall>k. outL ! k =
                 (if k < nat n
                  then delayDryLevel p * inL ! k
                       + delayWetLevel p * spec_delayed S p
                           (leftBuffer (spec_delayState S p inL (Some inR) k (d\<lparr> emptyBuffers := False \<rparr>)))
                           (spec_delayState S p inL (Some inR) k (d\<lparr> emptyBuffers := False \<rparr>))
                  else inL ! k)"
    "\<forall>k. outR ! k =
                 (if k < nat n
                  then delayDryLevel p * inR ! k
                       + delayWetLevel p * spec_delayed S p
                           (rightBuffer (spec_delayState S p inL (Some inR) k (d\<lparr> emptyBuffers := False \<rparr>)))
                           (spec_delayState S p inL (Some inR) k (d\<lparr> emptyBuffers := False \<rparr>))
                  else inR ! k)"
    by blast
  from MyDelay_apply_ok [OF assms(2) assms(1) assms(3-5)] sp(1)
  have ix: "currentIndex d' = (currentIndex d + int (nat n)) mod bufferSize d"
    by auto
  show "\<exists>outL outR d'.
           MyDelay_apply S p [inL, inR] n 2 d = Inr ([outL, outR], d')
           \<and> d' = spec_delayState S p inL (Some inR) (nat n) (d\<lparr> emptyBuffers := False \<rparr>)
           \<and> currentIndex d' = (currentIndex d + int (nat n)) mod bufferSize d
           \<and> length outL = length inL \<and> length outR = length inR
           \<and> (\<forall>k. outL ! k =
                 (if k < nat n
                  then delayDryLevel p * inL ! k
                       + delayWetLevel p * spec_delayed S p
                           (leftBuffer (spec_delayState S p inL (Some inR) k (d\<lparr> emptyBuffers := False \<rparr>)))
                           (spec_delayState S p inL (Some inR) k (d\<lparr> emptyBuffers := False \<rparr>))
                  else inL ! k))
           \<and> (\<forall>k. outR ! k =
                 (if k < nat n
                  then delayDryLevel p * inR ! k
                       + delayWetLevel p * spec_delayed S p
                           (rightBuffer (spec_delayState S p inL (Some inR) k (d\<lparr> emptyBuffers := False \<rparr>)))
                           (spec_delayState S p inL (Some inR) k (d\<lparr> emptyBuffers := False \<rparr>))
                  else inR ! k))"
    by (intro exI conjI) (rule sp ix)+
next
  show "\<exists>outL d'.
           MyDelay_apply S p [inL] n 1 d = Inr ([outL], d')
           \<and> d' = spec_delayState S p inL None (nat n) (d\<lparr> emptyBuffers := False \<rparr>)
           \<and> length outL = length inL
           \<and> (\<forall>k. outL ! k =
                 (if k < nat n
                  then delayDryLevel p * inL ! k
                       + delayWetLevel p * spec_delayed S p
                           (leftBuffer (spec_delayState S p inL None k (d\<lparr> emptyBuffers := False \<rparr>)))
                           (spec_delayState S p inL None k (d\<lparr> emptyBuffers := False \<rparr>))
                  else inL ! k))"
    by (rule MyDelay_apply_spec_mono [OF assms(2) assms(1) assms(3-4)])
qed

theorem MyDelay_apply_formula_witness:
  "delayReady exampleDelay \<and> delayOn exampleParameters
   \<and> sv_getNextValue instantSmoothed
        (sv_setTargetValue instantSmoothed (delayTime exampleParameters * sampleRate exampleDelay)
           (smoothDelaySamples exampleDelay)) = (3 / 2, 3 / 2)
   \<and> MyDelay_sample instantSmoothed exampleParameters 0 [10] (Some [20]) exampleDelay =
       Inr ([8], Some [34],
            exampleDelay\<lparr> smoothDelaySamples := 3 / 2, leftBuffer := [23 / 2, 2, 4],
              rightBuffer := [32, 16, 32], currentIndex := 1 \<rparr>)
   \<and> (\<exists>outL outR d'.
         MyDelay_apply instantSmoothed exampleParameters [[10], [20]] 1 2 exampleDelay
           = Inr ([outL, outR], d')
         \<and> outL ! 0 = 8 \<and> outR ! 0 = 34
         \<and> leftBuffer d' = [23 / 2, 2, 4] \<and> rightBuffer d' = [32, 16, 32]
         \<and> currentIndex d' = 1)"
proof -
  have rdy: "delayReady exampleDelay"
    by (simp add: delayReady_def exampleDelay_def)
  have nxt: "sv_getNextValue instantSmoothed
        (sv_setTargetValue instantSmoothed (delayTime exampleParameters * sampleRate exampleDelay)
           (smoothDelaySamples exampleDelay)) = (3 / 2, 3 / 2)"
    by (simp add: instantSmoothed_def exampleParameters_def exampleDelay_def)
  have lo: "(0::real) \<le> 3 / 2" by simp
  have hi: "3 / 2 < real_of_int (bufferSize exampleDelay)"
    by (simp add: exampleDelay_def)
  have il: "0 < length [10::real]" by simp
  have ir: "case Some [20::real] of None \<Rightarrow> True | Some r \<Rightarrow> 0 < length r" by simp
  have on: "delayOn exampleParameters"
    by (simp add: exampleParameters_def)
  have within: "delaysWithin instantSmoothed (delayTime exampleParameters * sampleRate exampleDelay)
      (real_of_int (bufferSize exampleDelay)) (nat 1) (smoothDelaySamples exampleDelay)"
    by (simp add: instantSmoothed_def exampleParameters_def exampleDelay_def)
  have len: "nat 1 \<le> length [10::real]" "nat 1 \<le> length [20::real]" by simp_all
  note th = MyDelay_apply_formula [OF rdy on within len nxt lo hi il ir]
  have A: "MyDelay_sample instantSmoothed exampleParameters 0 [10] (Some [20]) exampleDelay =
       Inr ([8], Some [34],
            exampleDelay\<lparr> smoothDelaySamples := 3 / 2, leftBuffer := [23 / 2, 2, 4],
              rightBuffer := [32, 16, 32], currentIndex := 1 \<rparr>)"
    using th
    by (simp add: spec_fractionalRead_def floor_three_halves exampleParameters_def
        defaultParameters_def exampleDelay_def)
  from th obtain outL outR d' where ap:
    "MyDelay_apply instantSmoothed exampleParameters [[10], [20]] 1 2 exampleDelay
       = Inr ([outL, outR], d')"
    and d': "d' = spec_delayState instantSmoothed exampleParameters [10] (Some [20]) (nat 1)
                    (exampleDelay\<lparr> emptyBuffers := False \<rparr>)"
    and L: "\<forall>k. outL ! k =
                 (if k < nat 1
                  then delayDryLevel exampleParameters * [10] ! k
                       + delayWetLevel exampleParameters * spec_delayed instantSmoothed exampleParameters
                           (leftBuffer (spec_delayState instantSmoothed exampleParameters [10] (Some [20]) k
                              (exampleDelay\<lparr> emptyBuffers := False \<rparr>)))
                           (spec_delayState instantSmoothed exampleParameters [10] (Some [20]) k
                              (exampleDelay\<lparr> emptyBuffers := False \<rparr>))
                  else [10] ! k)"
    and R: "\<forall>k. outR ! k =
                 (if k < nat 1
                  then delayDryLevel exampleParameters * [20] ! k
                       + delayWetLevel exampleParameters * spec_delayed instantSmoothed exampleParameters
                           (rightBuffer (spec_delayState instantSmoothed exampleParameters [10] (Some [20]) k
                              (exampleDelay\<lparr> emptyBuffers := False \<rparr>)))
                           (spec_delayState instantSmoothed exampleParameters [10] (Some [20]) k
                              (exampleDelay\<lparr> emptyBuffers := False \<rparr>))
                  else [20] ! k)"
    by blast
  have ev: "spec_delayDistance instantSmoothed exampleParameters (exampleDelay\<lparr> emptyBuffers := False \<rparr>)
              = 3 / 2"
    by (simp add: spec_delayDistance_def instantSmoothed_def exampleParameters_def exampleDelay_def)
  have dl: "spec_delayed instantSmoothed exampleParameters
              (leftBuffer (exampleDelay\<lparr> emptyBuffers := False \<rparr>))
              (exampleDelay\<lparr> emptyBuffers := False \<rparr>) = 3"
    unfolding spec_delayed_def ev
    by (simp add: spec_fractionalRead_def floor_three_halves exampleDelay_def)
  have dr: "spec_delayed instantSmoothed exampleParameters
              (rightBuffer (exampleDelay\<lparr> emptyBuffers := False \<rparr>))
              (exampleDelay\<lparr> emptyBuffers := False \<rparr>) = 24"
    unfolding spec_delayed_def ev
    by (simp add: spec_fractionalRead_def floor_three_halves exampleDelay_def)
  have "outL ! 0 = delayDryLevel exampleParameters * 10 + delayWetLevel exampleParameters * 3"
    using L [rule_format, of 0] dl by simp
  then have oL: "outL ! 0 = 8"
    by (simp add: exampleParameters_def defaultParameters_def)
  have "outR ! 0 = delayDryLevel exampleParameters * 20 + delayWetLevel exampleParameters * 24"
    using R [rule_format, of 0] dr by simp
  then have oR: "outR ! 0 = 34"
    by (simp add: exampleParameters_def defaultParameters_def)
  have d1: "d' = spec_delayStep instantSmoothed exampleParameters 10 (Some 20)
                   (exampleDelay\<lparr> emptyBuffers := False \<rparr>)"
    unfolding d' by simp
  have st: "leftBuffer d' = [23 / 2, 2, 4]" "rightBuffer d' = [32, 16, 32]" "currentIndex d' = 1"
    unfolding d1 spec_delayStep_def dl dr
    by (simp_all add: exampleParameters_def defaultParameters_def exampleDelay_def)
  have B: "\<exists>outL outR d'.
         MyDelay_apply instantSmoothed exampleParameters [[10], [20]] 1 2 exampleDelay
           = Inr ([outL, outR], d')
         \<and> outL ! 0 = 8 \<and> outR ! 0 = 34
         \<and> leftBuffer d' = [23 / 2, 2, 4] \<and> rightBuffer d' = [32, 16, 32]
         \<and> currentIndex d' = 1"
    using ap oL oR st by blast
  show ?thesis
    using rdy on nxt A B by (intro conjI)
qed

text \<open>
  C2. With the delay off, \<^verbatim>\<open>apply\<close> of either delay (its lines allocated with
  \<^verbatim>\<open>bufferSize\<close> cells) returns the audio buffer as it received it. The lines are
  zeroed and the write index is set to 0 if the empty-buffers flag is down, which
  raises the flag, so a further block with the delay off changes nothing. A block
  with the delay on leaves the flag down, does not depend on the flag, and clears
  nothing: on an empty block it changes only the flag.
\<close>

theorem delay_bypass_and_clear:
  assumes off: "\<not> delayOn p" and on: "delayOn p'"
    and alloc: "length (leftBuffer d) = nat (bufferSize d)" "length (rightBuffer d) = nat (bufferSize d)"
    and pp_alloc: "length (leftDelayBuffer q) = nat (pp_bufferSize q)"
      "length (rightDelayBuffer q) = nat (pp_bufferSize q)"
  shows
    "MyDelay_apply S p buffer n c d = Inr (buffer, if emptyBuffers d then d else cleared d)
   \<and> MyPingPongDelay_apply fadd S p buffer n c q = Inr (buffer, if pp_emptyBuffers q then q else pp_cleared q)
   \<and> clearBuffers d = Inr (cleared d)
   \<and> pp_clearBuffers q = Inr (pp_cleared q)
   \<and> MyDelay_apply S p buffer2 n2 c2 (cleared d) = Inr (buffer2, cleared d)
   \<and> MyPingPongDelay_apply fadd S p buffer2 n2 c2 (pp_cleared q) = Inr (buffer2, pp_cleared q)
   \<and> (case MyDelay_apply S p' buffer n c d of Inl e \<Rightarrow> True | Inr (b', d') \<Rightarrow> \<not> emptyBuffers d')
   \<and> (case MyPingPongDelay_apply fadd S p' buffer n c q of
         Inl e \<Rightarrow> True | Inr (b', q') \<Rightarrow> \<not> pp_emptyBuffers q')
   \<and> MyDelay_apply S p' buffer n c (d\<lparr> emptyBuffers := flag \<rparr>) = MyDelay_apply S p' buffer n c d
   \<and> MyPingPongDelay_apply fadd S p' buffer n c (q\<lparr> pp_emptyBuffers := flag \<rparr>) =
       MyPingPongDelay_apply fadd S p' buffer n c q
   \<and> MyDelay_apply S p' [ch0, ch1] 0 2 d = Inr ([ch0, ch1], d\<lparr> emptyBuffers := False \<rparr>)
   \<and> MyPingPongDelay_apply fadd S p' [ch0, ch1] 0 2 q = Inr ([ch0, ch1], q\<lparr> pp_emptyBuffers := False \<rparr>)"
proof -
  note c = clearBuffers_zero [OF alloc] pp_clearBuffers_zero [OF pp_alloc]
  have a: "MyDelay_apply S p buffer n c d = Inr (buffer, if emptyBuffers d then d else cleared d)"
    using off by (simp add: MyDelay_apply_def c)
  have b: "MyPingPongDelay_apply fadd S p buffer n c q =
       Inr (buffer, if pp_emptyBuffers q then q else pp_cleared q)"
    using off by (simp add: MyPingPongDelay_apply_def c)
  have e: "MyDelay_apply S p buffer2 n2 c2 (cleared d) = Inr (buffer2, cleared d)"
    using off by (simp add: MyDelay_apply_def cleared_def)
  have f: "MyPingPongDelay_apply fadd S p buffer2 n2 c2 (pp_cleared q) = Inr (buffer2, pp_cleared q)"
    using off by (simp add: MyPingPongDelay_apply_def pp_cleared_def)
  have g: "case MyDelay_apply S p' buffer n c d of Inl e \<Rightarrow> True | Inr (b', d') \<Rightarrow> \<not> emptyBuffers d'"
    by (auto split: sum.splits dest: MyDelay_apply_flag [OF on])
  have h: "case MyPingPongDelay_apply fadd S p' buffer n c q of
         Inl e \<Rightarrow> True | Inr (b', q') \<Rightarrow> \<not> pp_emptyBuffers q'"
    by (auto split: sum.splits dest: pp_apply_flag [OF on])
  have i: "MyDelay_apply S p' buffer n c (d\<lparr> emptyBuffers := flag \<rparr>) = MyDelay_apply S p' buffer n c d"
    using on by (simp add: MyDelay_apply_def)
  have j: "MyPingPongDelay_apply fadd S p' buffer n c (q\<lparr> pp_emptyBuffers := flag \<rparr>) =
       MyPingPongDelay_apply fadd S p' buffer n c q"
    using on by (simp add: MyPingPongDelay_apply_def)
  have k: "MyDelay_apply S p' [ch0, ch1] 0 2 d = Inr ([ch0, ch1], d\<lparr> emptyBuffers := False \<rparr>)"
    using on by (simp add: MyDelay_apply_def)
  have l: "MyPingPongDelay_apply fadd S p' [ch0, ch1] 0 2 q = Inr ([ch0, ch1], q\<lparr> pp_emptyBuffers := False \<rparr>)"
    using on by (simp add: MyPingPongDelay_apply_def)
  show ?thesis
    using a b c e f g h i j k l by (intro conjI)
qed

theorem delay_bypass_and_clear_witness:
  "\<not> delayOn defaultParameters \<and> delayOn exampleParameters
   \<and> MyDelay_apply instantSmoothed defaultParameters [[10], [20]] 1 2 exampleDelay =
       Inr ([[10], [20]],
            exampleDelay\<lparr> leftBuffer := [0, 0, 0], rightBuffer := [0, 0, 0], currentIndex := 0,
              emptyBuffers := True \<rparr>)
   \<and> MyPingPongDelay_apply (+) instantSmoothed defaultParameters [[10], [20]] 1 2 examplePingPong =
       Inr ([[10], [20]],
            examplePingPong\<lparr> leftDelayBuffer := [0, 0, 0, 0, 0], rightDelayBuffer := [0, 0, 0, 0, 0],
              pp_currentIndex := 0, pp_emptyBuffers := True \<rparr>)"
proof -
  have off: "\<not> delayOn defaultParameters"
    by (simp add: defaultParameters_def)
  have on: "delayOn exampleParameters"
    by (simp add: exampleParameters_def)
  have a: "length (leftBuffer exampleDelay) = nat (bufferSize exampleDelay)"
    "length (rightBuffer exampleDelay) = nat (bufferSize exampleDelay)"
    by (simp_all add: exampleDelay_def)
  have b: "length (leftDelayBuffer examplePingPong) = nat (pp_bufferSize examplePingPong)"
    "length (rightDelayBuffer examplePingPong) = nat (pp_bufferSize examplePingPong)"
    by (simp_all add: examplePingPong_def)
  have e: "\<not> emptyBuffers exampleDelay" "\<not> pp_emptyBuffers examplePingPong"
    "nat (bufferSize exampleDelay) = 3" "nat (pp_bufferSize examplePingPong) = 5"
    by (simp_all add: exampleDelay_def examplePingPong_def)
  have r: "replicate 3 (0::real) = [0, 0, 0]" "replicate 5 (0::real) = [0, 0, 0, 0, 0]"
    by (simp_all add: numeral_3_eq_3 eval_nat_numeral)
  show ?thesis
    using off on
      delay_bypass_and_clear [OF off on a b, of instantSmoothed "[[10], [20]]" 1 2]
    by (simp add: e r cleared_def pp_cleared_def)
qed

text \<open>
  C3, as the code has it. On a stereo block with the depth parameter at 0.5 (the
  delay prepared, the block within both channels, the smoothed delay distance
  within half the line, since the right line is read at twice the distance), each
  output sample of the ping-pong delay is a sum of three terms added from left to
  right: the left output is \<open>(dryLevel\<cdot>inL \<oplus> 0.5\<cdot>(wetLevel\<cdot>dL)) \<oplus> 0.5\<cdot>(wetLevel\<cdot>dR)\<close>
  and the right output \<open>(dryLevel\<cdot>inR \<oplus> 0.5\<cdot>(wetLevel\<cdot>dR)) \<oplus> 0.5\<cdot>(wetLevel\<cdot>dL)\<close>,
  with \<open>dL\<close> and \<open>dR\<close> the delayed samples of the left and of the right line and \<open>\<oplus>\<close>
  the addition of the machine. Both channels so receive the same two delayed terms
  with the same gain, but each keeps its own dry term and adds the delayed terms
  in the opposite order; nothing makes the two sums the same number.
\<close>

theorem pingpong_half_depth:
  assumes "delayOn p" and "delayDepth p = 1 / 2" and "pp_delayReady d"
    and "delaysWithin S (delayTime p * pp_sampleRate d) (real_of_int (pp_bufferSize d) / 2)
           (nat n) (smoothDelayInSamples d)"
    and "nat n \<le> length inL" and "nat n \<le> length inR"
  shows "\<exists>outL outR d'.
           MyPingPongDelay_apply fadd S p [inL, inR] n 2 d = Inr ([outL, outR], d')
           \<and> d' = spec_ppState S p inL inR (nat n) (d\<lparr> pp_emptyBuffers := False \<rparr>)
           \<and> (\<forall>k<nat n.
                 outL ! k =
                   fadd (fadd (delayDryLevel p * inL ! k)
                           (1 / 2 * (delayWetLevel p *
                              spec_ppLeftDelayed S p
                                (spec_ppState S p inL inR k (d\<lparr> pp_emptyBuffers := False \<rparr>)))))
                        (1 / 2 * (delayWetLevel p *
                              spec_ppRightDelayed S p
                                (spec_ppState S p inL inR k (d\<lparr> pp_emptyBuffers := False \<rparr>))))
                 \<and> outR ! k =
                   fadd (fadd (delayDryLevel p * inR ! k)
                           (1 / 2 * (delayWetLevel p *
                              spec_ppRightDelayed S p
                                (spec_ppState S p inL inR k (d\<lparr> pp_emptyBuffers := False \<rparr>)))))
                        (1 / 2 * (delayWetLevel p *
                              spec_ppLeftDelayed S p
                                (spec_ppState S p inL inR k (d\<lparr> pp_emptyBuffers := False \<rparr>)))))"
proof -
  have chans: "2 \<le> length [inL, inR]" "(1::int) < 2" by simp_all
  have len: "nat n \<le> length ([inL, inR] ! 0)" "nat n \<le> length ([inL, inR] ! 1)"
    using assms(5,6) by simp_all
  from pp_apply_spec [OF assms(1) assms(3) assms(4) chans len, of fadd]
  obtain outL outR d' where sp:
    "MyPingPongDelay_apply fadd S p [inL, inR] n 2 d = Inr ([inL, inR][0 := outL, 1 := outR], d')"
    "d' = spec_ppState S p ([inL, inR] ! 0) ([inL, inR] ! 1) (nat n) (d\<lparr> pp_emptyBuffers := False \<rparr>)"
    "\<forall>k. outL ! k =
                 (if k < nat n
                  then fadd (fadd (delayDryLevel p * [inL, inR] ! 0 ! k)
                          (delayDepth p * (delayWetLevel p *
                             spec_ppLeftDelayed S p
                               (spec_ppState S p ([inL, inR] ! 0) ([inL, inR] ! 1) k
                                  (d\<lparr> pp_emptyBuffers := False \<rparr>)))))
                        ((1 - delayDepth p) * (delayWetLevel p *
                             spec_ppRightDelayed S p
                               (spec_ppState S p ([inL, inR] ! 0) ([inL, inR] ! 1) k
                                  (d\<lparr> pp_emptyBuffers := False \<rparr>))))
                  else [inL, inR] ! 0 ! k)"
    "\<forall>k. outR ! k =
                 (if k < nat n
                  then fadd (fadd (delayDryLevel p * [inL, inR] ! 1 ! k)
                          (delayDepth p * (delayWetLevel p *
                             spec_ppRightDelayed S p
                               (spec_ppState S p ([inL, inR] ! 0) ([inL, inR] ! 1) k
                                  (d\<lparr> pp_emptyBuffers := False \<rparr>)))))
                        ((1 - delayDepth p) * (delayWetLevel p *
                             spec_ppLeftDelayed S p
                               (spec_ppState S p ([inL, inR] ! 0) ([inL, inR] ! 1) k
                                  (d\<lparr> pp_emptyBuffers := False \<rparr>))))
                  else [inL, inR] ! 1 ! k)"
    by blast
  have h: "1 - delayDepth p = 1 / 2" using assms(2) by simp
  have ap: "MyPingPongDelay_apply fadd S p [inL, inR] n 2 d = Inr ([outL, outR], d')"
    using sp(1) by simp
  have st: "d' = spec_ppState S p inL inR (nat n) (d\<lparr> pp_emptyBuffers := False \<rparr>)"
    using sp(2) by simp
  have f: "\<forall>k<nat n.
                 outL ! k =
                   fadd (fadd (delayDryLevel p * inL ! k)
                           (1 / 2 * (delayWetLevel p *
                              spec_ppLeftDelayed S p
                                (spec_ppState S p inL inR k (d\<lparr> pp_emptyBuffers := False \<rparr>)))))
                        (1 / 2 * (delayWetLevel p *
                              spec_ppRightDelayed S p
                                (spec_ppState S p inL inR k (d\<lparr> pp_emptyBuffers := False \<rparr>))))
                 \<and> outR ! k =
                   fadd (fadd (delayDryLevel p * inR ! k)
                           (1 / 2 * (delayWetLevel p *
                              spec_ppRightDelayed S p
                                (spec_ppState S p inL inR k (d\<lparr> pp_emptyBuffers := False \<rparr>)))))
                        (1 / 2 * (delayWetLevel p *
                              spec_ppLeftDelayed S p
                                (spec_ppState S p inL inR k (d\<lparr> pp_emptyBuffers := False \<rparr>))))"
  proof (intro allI impI)
    fix k
    assume k: "k < nat n"
    from sp(3) [rule_format, of k] sp(4) [rule_format, of k] k
    show "outL ! k =
                   fadd (fadd (delayDryLevel p * inL ! k)
                           (1 / 2 * (delayWetLevel p *
                              spec_ppLeftDelayed S p
                                (spec_ppState S p inL inR k (d\<lparr> pp_emptyBuffers := False \<rparr>)))))
                        (1 / 2 * (delayWetLevel p *
                              spec_ppRightDelayed S p
                                (spec_ppState S p inL inR k (d\<lparr> pp_emptyBuffers := False \<rparr>))))
                 \<and> outR ! k =
                   fadd (fadd (delayDryLevel p * inR ! k)
                           (1 / 2 * (delayWetLevel p *
                              spec_ppRightDelayed S p
                                (spec_ppState S p inL inR k (d\<lparr> pp_emptyBuffers := False \<rparr>)))))
                        (1 / 2 * (delayWetLevel p *
                              spec_ppLeftDelayed S p
                                (spec_ppState S p inL inR k (d\<lparr> pp_emptyBuffers := False \<rparr>))))"
      unfolding h assms(2) by simp
  qed
  show ?thesis
    by (intro exI conjI) (rule ap st f)+
qed

theorem pingpong_half_depth_witness:
  "delayOn exampleParameters \<and> delayDepth exampleParameters = 1 / 2 \<and> pp_delayReady examplePingPong
   \<and> (\<exists>outL outR d'.
         MyPingPongDelay_apply (+) instantSmoothed exampleParameters [[7], [7]] 1 2 examplePingPong
           = Inr ([outL, outR], d')
         \<and> outL ! 0 = 7 / 2 + 6 + 9 / 2 \<and> outR ! 0 = 7 / 2 + 9 / 2 + 6)"
proof -
  have on: "delayOn exampleParameters" and half: "delayDepth exampleParameters = 1 / 2"
    by (simp_all add: exampleParameters_def)
  have rdy: "pp_delayReady examplePingPong"
    by (simp add: pp_delayReady_def examplePingPong_def)
  have within: "delaysWithin instantSmoothed (delayTime exampleParameters * pp_sampleRate examplePingPong)
      (real_of_int (pp_bufferSize examplePingPong) / 2) (nat 1) (smoothDelayInSamples examplePingPong)"
    by (simp add: instantSmoothed_def exampleParameters_def examplePingPong_def)
  have len: "nat 1 \<le> length [7::real]" by simp
  from pingpong_half_depth [OF on half rdy within len len, of "(+)"]
  obtain outL outR d' where ap:
    "MyPingPongDelay_apply (+) instantSmoothed exampleParameters [[7], [7]] 1 2 examplePingPong
       = Inr ([outL, outR], d')"
    and f: "\<forall>k<nat 1.
                 outL ! k =
                   delayDryLevel exampleParameters * [7] ! k
                   + 1 / 2 * (delayWetLevel exampleParameters *
                              spec_ppLeftDelayed instantSmoothed exampleParameters
                                (spec_ppState instantSmoothed exampleParameters [7] [7] k
                                   (examplePingPong\<lparr> pp_emptyBuffers := False \<rparr>)))
                   + 1 / 2 * (delayWetLevel exampleParameters *
                              spec_ppRightDelayed instantSmoothed exampleParameters
                                (spec_ppState instantSmoothed exampleParameters [7] [7] k
                                   (examplePingPong\<lparr> pp_emptyBuffers := False \<rparr>)))
                 \<and> outR ! k =
                   delayDryLevel exampleParameters * [7] ! k
                   + 1 / 2 * (delayWetLevel exampleParameters *
                              spec_ppRightDelayed instantSmoothed exampleParameters
                                (spec_ppState instantSmoothed exampleParameters [7] [7] k
                                   (examplePingPong\<lparr> pp_emptyBuffers := False \<rparr>)))
                   + 1 / 2 * (delayWetLevel exampleParameters *
                              spec_ppLeftDelayed instantSmoothed exampleParameters
                                (spec_ppState instantSmoothed exampleParameters [7] [7] k
                                   (examplePingPong\<lparr> pp_emptyBuffers := False \<rparr>)))"
    by blast
  have ev: "spec_ppDistance instantSmoothed exampleParameters
              (examplePingPong\<lparr> pp_emptyBuffers := False \<rparr>) = 3 / 2"
    by (simp add: spec_ppDistance_def instantSmoothed_def exampleParameters_def examplePingPong_def)
  have dl: "spec_ppLeftDelayed instantSmoothed exampleParameters
              (examplePingPong\<lparr> pp_emptyBuffers := False \<rparr>) = 12"
    unfolding spec_ppLeftDelayed_def ev
    by (simp add: spec_fractionalRead_def floor_three_halves examplePingPong_def)
  have dr: "spec_ppRightDelayed instantSmoothed exampleParameters
              (examplePingPong\<lparr> pp_emptyBuffers := False \<rparr>) = 9"
    unfolding spec_ppRightDelayed_def ev
    by (simp add: spec_fractionalRead_def examplePingPong_def)
  have "outL ! 0 = delayDryLevel exampleParameters * 7
                   + 1 / 2 * (delayWetLevel exampleParameters * 12)
                   + 1 / 2 * (delayWetLevel exampleParameters * 9)
      \<and> outR ! 0 = delayDryLevel exampleParameters * 7
                   + 1 / 2 * (delayWetLevel exampleParameters * 9)
                   + 1 / 2 * (delayWetLevel exampleParameters * 12)"
    using f [rule_format, of 0] by (simp add: dl dr)
  then have o: "outL ! 0 = 7 / 2 + 6 + 9 / 2" "outR ! 0 = 7 / 2 + 9 / 2 + 6"
    by (simp_all add: exampleParameters_def defaultParameters_def)
  show ?thesis
    using on half rdy ap o by blast
qed

text \<open>
  With different left and right inputs and a dry level of 0.5 the two outputs differ
  at depth 0.5; every product and sum at this input is exact in \<^verbatim>\<open>float\<close>, so that
  the addition of the machine is the addition of the reals here.
\<close>

theorem pingpong_half_depth_counterexample:
  "delayDepth exampleParameters = 1 / 2
   \<and> (case MyPingPongDelay_apply (+) instantSmoothed exampleParameters [[1], [0]] 1 2 examplePingPong of
         Inl e \<Rightarrow> False
       | Inr (b, d') \<Rightarrow> b = [[11], [21 / 2]] \<and> b ! 0 ! 0 \<noteq> b ! 1 ! 0)"
  by (simp add: exampleParameters_def defaultParameters_def examplePingPong_def instantSmoothed_def
      MyPingPongDelay_apply_def MyPingPongDelay_sample_def pp_updateParams_def
      pp_incrementCurrentIndex_def getInterpolatedDelayedSample_def floorToInt_def int32_def
      backIndex_def readAt_def writeAt_def signed_modulo_int_def floor_three_halves Let_def)

subsection \<open>Voice\<close>

text \<open>
  C8, as the code has it. Take a block rendered by a playing voice, with the
  samples of the block inside every channel, and a sample \<open>k\<close> of the block before
  which the voice is ending and at which the envelope output falls below \<open>10\<^sup>-\<^sup>6\<close>.
  The block is rendered without fault. \<^verbatim>\<open>isClosed\<close> holds after sample \<open>k\<close>; from
  then on the note is cleared and the voice neither plays nor ends, and so the
  block leaves it; every later block leaves the buffer and the voice as they are.
  The loop does not stop at sample \<open>k\<close>, though: every sample of the block, those
  after \<open>k\<close> too, receives in every channel the sample that the signal chain
  produces there, which is 0 when the envelope output is 0.
\<close>

theorem release_closing_mid_block:
  assumes "playing v" and "0 \<le> start"
    and "\<forall>c<length buffer. start + int (nat n) \<le> int (length (buffer ! c))"
    and "k < nat n"
    and "ending (voice_inBlock X p v k)"
    and "fst (adsr_getNextSample (adsrOps X) (ampEnv (amp (voice_inBlock X p v k)))) < 1 / 1000000"
  shows "\<exists>buffer' v'.
     renderNextBlock X p buffer start n v = Inr (buffer', v')
     \<and> isClosed (amp (voice_inBlock X p v (Suc k)))
     \<and> (\<forall>j>k. \<not> playing (voice_inBlock X p v j) \<and> \<not> ending (voice_inBlock X p v j)
               \<and> currentlyPlayingNote (voice_inBlock X p v j) = - 1)
     \<and> v' = voice_inBlock X p v (nat n)
     \<and> \<not> playing v' \<and> \<not> ending v' \<and> currentlyPlayingNote v' = - 1
     \<and> renderNextBlock X p' buffer3 start3 m v' = Inr (buffer3, v')
     \<and> length buffer' = length buffer
     \<and> (\<forall>c<length buffer. \<forall>j<nat n.
          buffer' ! c ! (nat start + j) =
            buffer ! c ! (nat start + j)
            + fst (voice_nextSample X p (currentSampleRate v) (voice_inBlock X p v j)))
     \<and> (\<forall>j. fst (adsr_getNextSample (adsrOps X) (ampEnv (amp (voice_inBlock X p v j)))) = 0 \<longrightarrow>
            fst (voice_nextSample X p (currentSampleRate v) (voice_inBlock X p v j)) = 0)"
proof -
  from renderNextBlock_spec [OF assms(1-3)]
  obtain buffer' v' where r:
    "renderNextBlock X p buffer start n v = Inr (buffer', v')"
    "v' = voice_inBlock X p v (nat n)"
    "length buffer' = length buffer"
    "\<forall>c<length buffer. \<forall>j<nat n.
          buffer' ! c ! (nat start + j) =
            buffer ! c ! (nat start + j)
            + fst (voice_nextSample X p (currentSampleRate v) (voice_inBlock X p v j))"
    by blast
  have cl: "isClosed (amp (voice_inBlock X p v (Suc k)))"
    by (rule voice_inBlock_closing(1) [OF assms(5,6)])
  have idle: "\<forall>j>k. \<not> playing (voice_inBlock X p v j) \<and> \<not> ending (voice_inBlock X p v j)
               \<and> currentlyPlayingNote (voice_inBlock X p v j) = - 1"
    using voice_inBlock_closing(2) [OF assms(5,6)] by blast
  have fin: "\<not> playing v'" "\<not> ending v'" "currentlyPlayingNote v' = - 1"
    using idle assms(4) r(2) by simp_all
  have later: "renderNextBlock X p' buffer3 start3 m v' = Inr (buffer3, v')"
    using fin(1) by (simp add: renderNextBlock_def)
  have zero: "\<forall>j. fst (adsr_getNextSample (adsrOps X) (ampEnv (amp (voice_inBlock X p v j)))) = 0 \<longrightarrow>
            fst (voice_nextSample X p (currentSampleRate v) (voice_inBlock X p v j)) = 0"
    using voice_nextSample_zero by blast
  show ?thesis
    by (intro exI conjI) (rule r cl idle fin later zero)+
qed

theorem release_closing_mid_block_witness:
  "playing exampleVoice
   \<and> ending (voice_inBlock standIns exampleParameters exampleVoice 0)
   \<and> fst (adsr_getNextSample (adsrOps standIns)
            (ampEnv (amp (voice_inBlock standIns exampleParameters exampleVoice 0)))) < 1 / 1000000
   \<and> (\<exists>buffer' v'.
         renderNextBlock standIns exampleParameters [[0, 0]] 0 2 exampleVoice = Inr (buffer', v')
         \<and> \<not> playing v' \<and> currentlyPlayingNote v' = - 1
         \<and> buffer' ! 0 ! 0 = 1 / 20000000
         \<and> buffer' ! 0 ! 1 = 1 / 40000000)"
proof -
  have pl: "playing exampleVoice"
    by (simp add: exampleVoice_def)
  have st: "(0::int) \<le> 0" by simp
  have bd: "\<forall>c<length [[0, 0 :: real]]. 0 + int (nat 2) \<le> int (length ([[0, 0 :: real]] ! c))"
    by simp
  have k: "(0::nat) < nat 2" by simp
  have e: "ending (voice_inBlock standIns exampleParameters exampleVoice 0)"
    by (simp add: voice_inBlock_def voice_blockStart_def exampleVoice_def)
  have c: "fst (adsr_getNextSample (adsrOps standIns)
            (ampEnv (amp (voice_inBlock standIns exampleParameters exampleVoice 0)))) < 1 / 1000000"
    by (simp add: voice_inBlock_def voice_blockStart_def amp_updateParams_def exampleVoice_def
        standIns_def listADSR_def)
  from release_closing_mid_block [OF pl st bd k e c]
  obtain buffer' v' where r:
    "renderNextBlock standIns exampleParameters [[0, 0]] 0 2 exampleVoice = Inr (buffer', v')"
    "\<not> playing v'" "currentlyPlayingNote v' = - 1"
    "\<forall>c<length [[0, 0 :: real]]. \<forall>j<nat 2.
          buffer' ! c ! (nat 0 + j) =
            [[0, 0]] ! c ! (nat 0 + j)
            + fst (voice_nextSample standIns exampleParameters (currentSampleRate exampleVoice)
                     (voice_inBlock standIns exampleParameters exampleVoice j))"
    by blast
  have s0: "fst (voice_nextSample standIns exampleParameters (currentSampleRate exampleVoice)
                     (voice_inBlock standIns exampleParameters exampleVoice 0)) = 1 / 20000000"
    by (simp add: voice_inBlock_def voice_blockStart_def voice_afterSample_def voice_eval_defs)
  have s1: "fst (voice_nextSample standIns exampleParameters (currentSampleRate exampleVoice)
                     (voice_inBlock standIns exampleParameters exampleVoice 1)) = 1 / 40000000"
    by (simp add: voice_inBlock_def voice_blockStart_def voice_afterSample_def voice_eval_defs)
  have b0: "buffer' ! 0 ! 0 = 1 / 20000000"
    using r(4) [rule_format, of 0 0] s0 by simp
  have b1: "buffer' ! 0 ! 1 = 1 / 40000000"
    using r(4) [rule_format, of 0 1] s1 by simp
  show ?thesis
    using pl e c r(1-3) b0 b1 by blast
qed

text \<open>
  The remaining samples need not be silent: the example voice closes at the first
  sample of a two-sample block, and the second sample still receives
  \<open>2.5\<cdot>10\<^sup>-\<^sup>8\<close>.
\<close>

theorem release_tail_counterexample:
  "(case renderNextBlock standIns exampleParameters [[0, 0]] 0 1 exampleVoice of
      Inl e \<Rightarrow> False
    | Inr (b, v') \<Rightarrow> b = [[1 / 20000000, 0]] \<and> isClosed (amp v') \<and> \<not> playing v'
        \<and> currentlyPlayingNote v' = - 1)
   \<and> (case renderNextBlock standIns exampleParameters [[0, 0]] 0 2 exampleVoice of
      Inl e \<Rightarrow> False
    | Inr (b, v') \<Rightarrow> b = [[1 / 20000000, 1 / 40000000]] \<and> b ! 0 ! 1 \<noteq> 0)"
  by (simp add: voice_eval_defs)





end
